theory Spec2Isabelle
  imports Complex_Main
begin

section \<open>Data model of the App component\<close>

text \<open>
  The component of \<^verbatim>\<open>App.tsx\<close> keeps React state (\<^verbatim>\<open>useState\<close>) and mutable refs
  (\<^verbatim>\<open>useRef\<close>). Both are fields of one record. Times on the playback clock are
  JavaScript numbers, that is doubles: each is modelled by the real it denotes, and their
  addition rounds (section \<open>JavaScript numbers\<close>). Wall-clock milliseconds are integers.
\<close>

datatype ConnectionStatus = DISCONNECTED | CONNECTING | CONNECTED | ERROR

datatype Role = User | Model

text \<open>
  A transcript message. \<^verbatim>\<open>id\<close> is \<^verbatim>\<open>Date.now().toString()\<close>: the model keeps the number
  that the decimal string renders. \<^verbatim>\<open>timestamp\<close> is a \<^verbatim>\<open>Date\<close>, kept as its
  \<^verbatim>\<open>getTime()\<close> in milliseconds.
\<close>

record Message =
  msgId :: int
  role :: Role
  msgText :: string
  timestamp :: int

text \<open>
  The three optional fields of a \<^verbatim>\<open>LiveServerMessage\<close> that \<^verbatim>\<open>onmessage\<close> reads:
  \<^verbatim>\<open>serverContent?.outputTranscription?.text\<close>,
  \<^verbatim>\<open>serverContent?.modelTurn?.parts?.[0]?.inlineData?.data\<close> and
  \<^verbatim>\<open>serverContent?.interrupted\<close> (absent reads as false).
\<close>

record LiveServerMessage =
  outputTranscription :: "string option"
  inlineData :: "string option"
  interrupted :: bool

text \<open>A call of \<^verbatim>\<open>sourceNode.start(t)\<close> on a node whose buffer lasts \<^verbatim>\<open>duration\<close> seconds.\<close>

record PlaybackUnit =
  node :: nat
  scheduledStart :: real
  duration :: real

text \<open>What \<^verbatim>\<open>session.sendRealtimeInput\<close> is called with.\<close>

datatype RealtimeInput =
  Media string string
| Content Role string

text \<open>
  The readings of the clocks during one run of \<^verbatim>\<open>onmessage\<close>:
  \<^verbatim>\<open>audioCtx.currentTime\<close> (line 122) and the three readings of the wall clock in the
  updater of \<^verbatim>\<open>setMessages\<close>: \<^verbatim>\<open>new Date().getTime()\<close> (line 94),
  \<^verbatim>\<open>Date.now()\<close> (line 103) and \<^verbatim>\<open>new Date()\<close> (line 106).
\<close>

record Clocks =
  currentTime :: real
  dateRecent :: int
  dateId :: int
  dateStamp :: int

datatype AudioContext = AudioContext

text \<open>
  An audio processor installed by one run of \<^verbatim>\<open>connectToGemini\<close>: its handler closes over
  the value of \<^verbatim>\<open>isMicOn\<close> of the render that started the connection and over the local
  \<^verbatim>\<open>sessionPromise\<close>.
\<close>

record Processor =
  procMicOn :: bool
  procSession :: nat

text \<open>
  The state. First the React state and the refs, under the source's names; then the
  world the component acts on: the browser's table of live intervals (handle and the
  session promise its callback closes over), the handles \<^verbatim>\<open>setInterval\<close>,
  \<^verbatim>\<open>createBufferSource\<close> and \<^verbatim>\<open>ai.live.connect\<close> will return next, the processors
  that are connected, the encodings in flight (\<^verbatim>\<open>blobToBase64\<close> promises not yet
  fulfilled, each with the session promise and the input it will send), and logs of the
  calls made: \<^verbatim>\<open>blobToBase64\<close> on a captured chunk, \<^verbatim>\<open>start\<close> and \<^verbatim>\<open>stop\<close> on source nodes,
  \<^verbatim>\<open>stop\<close> on device tracks, \<^verbatim>\<open>console.error\<close>, and the callbacks handed to a
  session promise, in the order of their registration (callbacks of one promise run in
  that order once it is fulfilled).

  \<^verbatim>\<open>sourcesRef\<close> is a JavaScript \<^verbatim>\<open>Set\<close>: a duplicate-free list in insertion order,
  which is the order \<^verbatim>\<open>forEach\<close> visits.
\<close>

record app =
  status :: ConnectionStatus
  messages :: "Message list"
  error :: "string option"
  isMicOn :: bool
  mediaStream :: "nat list option"
  audioContextRef :: "AudioContext option"
  nextStartTimeRef :: real
  frameIntervalRef :: "nat option"
  sourcesRef :: "nat list"
  sessionPromiseRef :: "nat option"
  timers :: "(nat \<times> nat) list"
  nextTimer :: nat
  nextNode :: nat
  nextSession :: nat
  processors :: "Processor list"
  encoding :: "(nat \<times> nat \<times> RealtimeInput) list"
  nextEncoding :: nat
  captured :: "(nat \<times> RealtimeInput) list"
  started :: "PlaybackUnit list"
  stopped :: "nat list"
  stoppedTracks :: "nat list"
  console :: "string list"
  outbound :: "(nat \<times> RealtimeInput) list"

text \<open>The state of the first render; \<^verbatim>\<open>setInterval\<close> hands out positive handles.\<close>

definition initial :: app where
  "initial =
    \<lparr> status = DISCONNECTED, messages = [], error = None, isMicOn = True,
      mediaStream = None, audioContextRef = None, nextStartTimeRef = 0,
      frameIntervalRef = None, sourcesRef = [], sessionPromiseRef = None,
      timers = [], nextTimer = 1, nextNode = 0, nextSession = 0, processors = [],
      encoding = [], nextEncoding = 0, captured = [], started = [], stopped = [], stoppedTracks = [],
      console = [], outbound = [] \<rparr>"

section \<open>JavaScript numbers\<close>

text \<open>
  A JavaScript number is an IEEE 754 double. A finite double is modelled by the real it
  denotes, so comparison is comparison of reals, and \<^verbatim>\<open>x + y\<close> is the exact sum rounded to
  the nearest real with a significand of 53 bits, ties to the even significand. The
  exponent is not bounded here: the model agrees with the doubles as long as no sum
  reaches \<open>2 ^ 1024\<close> (sums of doubles below the normal range are exact in both).

  The exponent of a number: how often it is halved, or doubled, to reach \<open>[1, 2)\<close>.
\<close>

function halvings :: "real \<Rightarrow> nat" where
  "halvings x = (if x < 2 then 0 else Suc (halvings (x / 2)))"
  by pat_completeness auto
termination
proof (relation "measure (\<lambda>x. nat \<lfloor>x\<rfloor>)")
  show "wf (measure (\<lambda>x. nat \<lfloor>x\<rfloor>))" by simp
next
  fix x :: real
  assume "\<not> x < 2"
  then have "\<lfloor>x / 2\<rfloor> < \<lfloor>x\<rfloor>" "0 < \<lfloor>x\<rfloor>" by linarith+
  then show "(x / 2, x) \<in> measure (\<lambda>x. nat \<lfloor>x\<rfloor>)" by simp
qed

function doublings :: "real \<Rightarrow> nat" where
  "doublings x = (if x \<le> 0 \<or> 1 \<le> x then 0 else Suc (doublings (x * 2)))"
  by pat_completeness auto
termination
proof (relation "measure (\<lambda>x. nat \<lceil>1 / x\<rceil>)")
  show "wf (measure (\<lambda>x. nat \<lceil>1 / x\<rceil>))" by simp
next
  fix x :: real
  assume "\<not> (x \<le> 0 \<or> 1 \<le> x)"
  then have x: "0 < x" "x < 1" by simp_all
  define t where "t = 1 / x"
  from x have t: "1 < t" by (simp add: t_def)
  have h: "1 / (x * 2) = t / 2" by (simp add: t_def)
  have c: "2 \<le> \<lceil>t\<rceil>" using t by linarith
  then have "(2::real) \<le> of_int \<lceil>t\<rceil>" by linarith
  moreover have "t \<le> of_int \<lceil>t\<rceil>" by (rule le_of_int_ceiling)
  ultimately have "t / 2 \<le> of_int \<lceil>t\<rceil> - 1" by linarith
  then have "t / 2 \<le> of_int (\<lceil>t\<rceil> - 1)" by simp
  then have "\<lceil>t / 2\<rceil> \<le> \<lceil>t\<rceil> - 1" by (simp only: ceiling_le_iff)
  with c have "nat \<lceil>1 / (x * 2)\<rceil> < nat \<lceil>t\<rceil>" unfolding h by simp
  then show "(x * 2, x) \<in> measure (\<lambda>x. nat \<lceil>1 / x\<rceil>)" by (simp add: t_def)
qed

definition exponent :: "real \<Rightarrow> int" where
  "exponent x = (if 1 \<le> \<bar>x\<bar> then int (halvings \<bar>x\<bar>) else - int (doublings \<bar>x\<bar>))"

text \<open>
  Rounding to the nearest integer, ties to even; the unit in the last place of the 53-bit
  significand; rounding to a double; and the addition of doubles.
\<close>

definition roundHalfEven :: "real \<Rightarrow> int" where
  "roundHalfEven y =
    (let f = \<lfloor>y\<rfloor>
     in if y - of_int f < 1 / 2 then f
        else if 1 / 2 < y - of_int f then f + 1
        else if even f then f else f + 1)"

definition ulp :: "real \<Rightarrow> real" where
  "ulp x = 2 powi (exponent x - 52)"

definition fl :: "real \<Rightarrow> real" where
  "fl x = (if x = 0 then 0 else of_int (roundHalfEven (x / ulp x)) * ulp x)"

definition fadd :: "real \<Rightarrow> real \<Rightarrow> real" where
  "fadd x y = fl (x + y)"

text \<open>
  The reals that are doubles (with the unbounded exponent): those that rounding leaves
  as they are.
\<close>

definition representable :: "real \<Rightarrow> bool" where
  "representable x = (fl x = x)"

section \<open>The message handler\<close>

text \<open>The updater given to \<^verbatim>\<open>setMessages\<close> (lines 91 to 108).\<close>

definition appendTranscription :: "Clocks \<Rightarrow> string \<Rightarrow> Message list \<Rightarrow> Message list" where
  "appendTranscription c txt prev =
    (case prev of
       [] \<Rightarrow> prev @ [\<lparr> msgId = dateId c, role = Model, msgText = txt, timestamp = dateStamp c \<rparr>]
     | _ # _ \<Rightarrow>
        (let lastMsg = last prev;
             isRecent = (dateRecent c - timestamp lastMsg < 2000)
         in if role lastMsg = Model \<and> isRecent
            then butlast prev @ [lastMsg \<lparr> msgText := msgText lastMsg @ txt \<rparr>]
            else prev @ [\<lparr> msgId = dateId c, role = Model, msgText = txt,
                           timestamp = dateStamp c \<rparr>]))"

text \<open>\<^verbatim>\<open>Set.prototype.add\<close> and \<^verbatim>\<open>delete\<close>.\<close>

definition set_add :: "nat \<Rightarrow> nat list \<Rightarrow> nat list" where
  "set_add n xs = (if n \<in> set xs then xs else xs @ [n])"

definition set_delete :: "nat \<Rightarrow> nat list \<Rightarrow> nat list" where
  "set_delete n xs = removeAll n xs"

text \<open>
  The scheduler (lines 121 to 138), entered with the clock reading and the duration of the
  decoded buffer; both sums are sums of doubles. \<^verbatim>\<open>start\<close> raises only for a negative
  time; the time passed is never below the clock reading, which is never negative.
\<close>

definition scheduler :: "real \<Rightarrow> real \<Rightarrow> app \<Rightarrow> app" where
  "scheduler now dur st =
    (let nst = (if nextStartTimeRef st < now \<or> nextStartTimeRef st > fadd now 0.5
                then now else nextStartTimeRef st);
         sourceNode = nextNode st
     in st \<lparr> nextStartTimeRef := fadd nst dur,
             started := started st @
               [\<lparr> node = sourceNode, scheduledStart = nst, duration = dur \<rparr>],
             sourcesRef := set_add sourceNode (sourcesRef st),
             nextNode := Suc sourceNode \<rparr>)"

text \<open>\<^verbatim>\<open>sourceNode.onended\<close> (lines 136 to 138).\<close>

definition onended :: "nat \<Rightarrow> app \<Rightarrow> app" where
  "onended n st = st \<lparr> sourcesRef := set_delete n (sourcesRef st) \<rparr>"

text \<open>
  The audio branch (lines 113 to 142). \<^verbatim>\<open>base64ToBytes\<close> and \<^verbatim>\<open>pcmToAudioBuffer\<close>
  belong to \<^verbatim>\<open>./services/audioUtils\<close>; their composition is the parameter \<open>dec\<close>, which
  gives the duration of the decoded buffer, or \<open>None\<close> when either of them throws. The
  branch either returns from the handler (no audio context) or falls through to the
  interruption branch.
\<close>

datatype flow = Return app | Continue app

definition audioOutput :: "(string \<Rightarrow> real option) \<Rightarrow> real \<Rightarrow> string \<Rightarrow> app \<Rightarrow> flow" where
  "audioOutput dec now base64Audio st =
    (case audioContextRef st of
       None \<Rightarrow> Return st
     | Some audioCtx \<Rightarrow>
        (case dec base64Audio of
           None \<Rightarrow> Continue (st \<lparr> console := console st @ [''Audio decoding error:''] \<rparr>)
         | Some dur \<Rightarrow> Continue (scheduler now dur st)))"

text \<open>The interruption branch (lines 145 to 151); a \<^verbatim>\<open>stop\<close> that throws is swallowed.\<close>

definition interruption :: "app \<Rightarrow> app" where
  "interruption st =
    st \<lparr> stopped := stopped st @ sourcesRef st, sourcesRef := [], nextStartTimeRef := 0 \<rparr>"

text \<open>
  \<^verbatim>\<open>onmessage\<close> (lines 87 to 152). The handler suspends once, at the \<^verbatim>\<open>await\<close> of the
  decoder; what runs before it only updates the transcript, so the handler is given here as
  one step, with the clock read after the decoder has finished. The guards on the two
  strings (lines 89 and 113) are truthiness tests: a string passes when it is present and
  not empty.
\<close>

definition onmessage :: "(string \<Rightarrow> real option) \<Rightarrow> Clocks \<Rightarrow> LiveServerMessage \<Rightarrow> app \<Rightarrow> app" where
  "onmessage dec c msg st =
    (let st1 = (case outputTranscription msg of
                  None \<Rightarrow> st
                | Some txt \<Rightarrow>
                    if txt \<noteq> [] then st \<lparr> messages := appendTranscription c txt (messages st) \<rparr>
                    else st);
         fl = (case inlineData msg of
                 None \<Rightarrow> Continue st1
               | Some base64Audio \<Rightarrow>
                   if base64Audio \<noteq> [] then audioOutput dec (currentTime c) base64Audio st1
                   else Continue st1)
     in case fl of
          Return st2 \<Rightarrow> st2
        | Continue st2 \<Rightarrow> if interrupted msg then interruption st2 else st2)"

text \<open>A run of the handler over the messages of a session, in the order they are handled.\<close>

fun onmessages :: "(string \<Rightarrow> real option) \<Rightarrow> (Clocks \<times> LiveServerMessage) list \<Rightarrow> app \<Rightarrow> app" where
  "onmessages dec [] st = st"
| "onmessages dec ((c, msg) # rest) st = onmessages dec rest (onmessage dec c msg st)"

section \<open>Capture, dispatch and the connection lifecycle\<close>

text \<open>
  \<^verbatim>\<open>clearInterval\<close> removes a handle from the table of live intervals (and does nothing
  for a handle that is not live).
\<close>

definition clearInterval :: "nat \<Rightarrow> app \<Rightarrow> app" where
  "clearInterval h st = st \<lparr> timers := filter (\<lambda>(t, p). t \<noteq> h) (timers st) \<rparr>"

text \<open>
  \<^verbatim>\<open>startVideoStreaming\<close> (lines 202 to 241): the test of line 203 is a truthiness test,
  false for \<^verbatim>\<open>null\<close> and for the number 0.
\<close>

definition startVideoStreaming :: "nat \<Rightarrow> app \<Rightarrow> app" where
  "startVideoStreaming sessionPromise st =
    (let st1 = (case frameIntervalRef st of
                  None \<Rightarrow> st
                | Some h \<Rightarrow> if h \<noteq> 0 then clearInterval h st else st);
         h' = nextTimer st1
     in st1 \<lparr> timers := timers st1 @ [(h', sessionPromise)],
              frameIntervalRef := Some h',
              nextTimer := Suc h' \<rparr>)"

text \<open>
  Handing a chunk to \<^verbatim>\<open>blobToBase64\<close>: the promise is in flight until the browser
  fulfils it. The chunk is carried as an opaque string through
  \<^verbatim>\<open>float32To16BitPCM\<close>, \<^verbatim>\<open>toBlob\<close> and \<^verbatim>\<open>blobToBase64\<close>.
\<close>

definition blobToBase64 :: "nat \<Rightarrow> RealtimeInput \<Rightarrow> app \<Rightarrow> app" where
  "blobToBase64 sessionPromise input st =
    st \<lparr> encoding := encoding st @ [(nextEncoding st, sessionPromise, input)],
         nextEncoding := Suc (nextEncoding st),
         captured := captured st @ [(sessionPromise, input)] \<rparr>"

text \<open>
  The callback of the interval (lines 206 to 240), for the live handle \<open>h\<close>. \<open>frame\<close> is
  \<open>None\<close> when the tick returns early (no video or canvas element, no 2d context, or
  \<^verbatim>\<open>readyState < 2\<close>), and the image of the canvas otherwise.
\<close>

definition videoTick :: "nat \<Rightarrow> string option \<Rightarrow> app \<Rightarrow> app" where
  "videoTick h frame st =
    (case map_of (timers st) h of
       None \<Rightarrow> st
     | Some sessionPromise \<Rightarrow>
        (case frame of
           None \<Rightarrow> st
         | Some jpeg \<Rightarrow> blobToBase64 sessionPromise (Media ''image/jpeg'' jpeg) st))"

text \<open>\<^verbatim>\<open>processor.onaudioprocess\<close> (lines 169 to 186), for one processor and one block.\<close>

definition onaudioprocess :: "Processor \<Rightarrow> string \<Rightarrow> app \<Rightarrow> app" where
  "onaudioprocess proc inputData st =
    (if \<not> procMicOn proc then st
     else blobToBase64 (procSession proc) (Media ''audio/pcm;rate=16000'' inputData) st)"

text \<open>
  The encoding \<open>i\<close> completes: its continuation registers the send on the session promise
  (lines 177 to 184 for audio, 227 to 238 for video).
\<close>

definition encoded :: "nat \<Rightarrow> app \<Rightarrow> app" where
  "encoded i st =
    (case map_of (encoding st) i of
       None \<Rightarrow> st
     | Some (sessionPromise, input) \<Rightarrow>
         st \<lparr> encoding := filter (\<lambda>(j, e). j \<noteq> i) (encoding st),
              outbound := outbound st @ [(sessionPromise, input)] \<rparr>)"

text \<open>
  \<^verbatim>\<open>stopEverything\<close> (lines 243 to 256). \<^verbatim>\<open>mediaStream\<close> is React state, so the function
  sees the value of the render that created it: the argument \<open>stream\<close>. Every node of
  \<^verbatim>\<open>sourcesRef\<close> has been started, so \<^verbatim>\<open>stop\<close> does not throw.
\<close>

definition stopEverything :: "nat list option \<Rightarrow> app \<Rightarrow> app" where
  "stopEverything stream st =
    (let st1 = (case frameIntervalRef st of
                  None \<Rightarrow> st
                | Some h \<Rightarrow>
                    if h \<noteq> 0 then (clearInterval h st) \<lparr> frameIntervalRef := None \<rparr> else st);
         st2 = st1 \<lparr> stopped := stopped st1 @ sourcesRef st1,
                    sourcesRef := [],
                    sessionPromiseRef := None \<rparr>
     in case stream of
          None \<Rightarrow> st2
        | Some tracks \<Rightarrow>
            st2 \<lparr> stoppedTracks := stoppedTracks st2 @ tracks, mediaStream := None \<rparr>)"

text \<open>
  \<^verbatim>\<open>disconnect\<close> (lines 258 to 261), called from the click handler of the current
  render, which sees the current \<^verbatim>\<open>mediaStream\<close>.
\<close>

definition disconnect :: "app \<Rightarrow> app" where
  "disconnect st = (stopEverything (mediaStream st) st) \<lparr> status := DISCONNECTED \<rparr>"

text \<open>
  What the closures created by a run of \<^verbatim>\<open>connectToGemini\<close> see of the React state: the
  values of the render in which the run started.
\<close>

record Render =
  renderMicOn :: bool
  renderStream :: "nat list option"

definition render :: "app \<Rightarrow> Render" where
  "render st = \<lparr> renderMicOn = isMicOn st, renderStream = mediaStream st \<rparr>"

text \<open>\<^verbatim>\<open>ensureAudioContext\<close> up to its \<^verbatim>\<open>await\<close> (lines 43 to 48).\<close>

definition ensureAudioContext :: "app \<Rightarrow> app" where
  "ensureAudioContext st =
    (case audioContextRef st of
       None \<Rightarrow> st \<lparr> audioContextRef := Some AudioContext \<rparr>
     | Some ctx \<Rightarrow> st)"

text \<open>\<^verbatim>\<open>connectToGemini\<close> up to its first \<^verbatim>\<open>await\<close> (lines 56 to 61).\<close>

definition connectToGemini :: "app \<Rightarrow> app" where
  "connectToGemini st = ensureAudioContext (st \<lparr> status := CONNECTING, error := None \<rparr>)"

text \<open>
  How the rest of \<^verbatim>\<open>connectToGemini\<close> goes: an \<^verbatim>\<open>await\<close> rejects with a message; or the
  microphone is granted (a stream with its tracks) and a later statement of the
  \<^verbatim>\<open>try\<close> block throws; or the block runs to its end.
\<close>

datatype Acquisition = Rejected string | Threw "nat list" string | Established "nat list"

text \<open>The \<^verbatim>\<open>catch\<close> block (lines 194 to 199).\<close>

definition connectFailed :: "Render \<Rightarrow> string \<Rightarrow> app \<Rightarrow> app" where
  "connectFailed r message st =
    stopEverything (renderStream r)
      (st \<lparr> error := Some (if message \<noteq> [] then message else ''Failed to connect''),
            status := ERROR \<rparr>)"

text \<open>\<^verbatim>\<open>connectToGemini\<close> after its \<^verbatim>\<open>await\<close>s (lines 62 to 199).\<close>

definition connectResumed :: "Render \<Rightarrow> Acquisition \<Rightarrow> app \<Rightarrow> app" where
  "connectResumed r a st =
    (case a of
       Rejected message \<Rightarrow> connectFailed r message st
     | Threw stream message \<Rightarrow> connectFailed r message (st \<lparr> mediaStream := Some stream \<rparr>)
     | Established stream \<Rightarrow>
        (let sessionPromise = nextSession st;
             st1 = st \<lparr> mediaStream := Some stream,
                        nextSession := Suc sessionPromise,
                        sessionPromiseRef := Some sessionPromise,
                        processors := processors st @
                          [\<lparr> procMicOn = renderMicOn r, procSession = sessionPromise \<rparr>] \<rparr>
         in startVideoStreaming sessionPromise st1))"

text \<open>The callbacks of the session (lines 83 to 86 and 153 to 162).\<close>

definition onopen :: "app \<Rightarrow> app" where
  "onopen st = st \<lparr> status := CONNECTED \<rparr>"

definition onclose :: "app \<Rightarrow> app" where
  "onclose st = st \<lparr> status := DISCONNECTED \<rparr>"

definition onerror :: "Render \<Rightarrow> app \<Rightarrow> app" where
  "onerror r st =
    stopEverything (renderStream r)
      (st \<lparr> error := Some ''Connection error. Please try again.'', status := ERROR \<rparr>)"

text \<open>\<^verbatim>\<open>handleToggle\<close> (lines 267 to 273) and the microphone button (line 319).\<close>

definition handleToggle :: "app \<Rightarrow> app" where
  "handleToggle st =
    (if status st = CONNECTED \<or> status st = CONNECTING then disconnect st
     else connectToGemini st)"

definition toggleMic :: "app \<Rightarrow> app" where
  "toggleMic st = st \<lparr> isMicOn := \<not> isMicOn st \<rparr>"

text \<open>\<^verbatim>\<open>handleTestConnection\<close> (lines 275 to 287).\<close>

definition handleTestConnection :: "app \<Rightarrow> app" where
  "handleTestConnection st =
    (case sessionPromiseRef st of
       None \<Rightarrow> st
     | Some sessionPromise \<Rightarrow>
         st \<lparr> outbound := outbound st @
           [(sessionPromise, Content User ''Hello! Confirm you can hear and see me.'')] \<rparr>)"

text \<open>
  The button that calls it is rendered only in the status CONNECTED (lines 325 to 332):
  a click is possible there and nowhere else.
\<close>

definition clickTestConnection :: "app \<Rightarrow> app option" where
  "clickTestConnection st =
    (if status st = CONNECTED then Some (handleTestConnection st) else None)"

text \<open>
  Everything that can happen to the component, one event per callback. The callbacks run
  one at a time, to completion; the order of the events is the environment's.
\<close>

datatype event =
  ClickToggle
| ClickMic
| ClickTest
| Resumed Render Acquisition
| OnOpen
| OnMessage Clocks LiveServerMessage
| OnClose
| OnError Render
| AudioProcess nat string
| VideoTick nat "string option"
| Encoded nat
| Ended nat
| Unmount Render

fun step :: "(string \<Rightarrow> real option) \<Rightarrow> event \<Rightarrow> app \<Rightarrow> app" where
  "step dec ClickToggle st = handleToggle st"
| "step dec ClickMic st = toggleMic st"
| "step dec ClickTest st = (case clickTestConnection st of None \<Rightarrow> st | Some st' \<Rightarrow> st')"
| "step dec (Resumed r a) st = connectResumed r a st"
| "step dec OnOpen st = onopen st"
| "step dec (OnMessage c msg) st = onmessage dec c msg st"
| "step dec OnClose st = onclose st"
| "step dec (OnError r) st = onerror r st"
| "step dec (AudioProcess k inputData) st =
     (if k < length (processors st) then onaudioprocess (processors st ! k) inputData st
      else st)"
| "step dec (VideoTick h frame) st = videoTick h frame st"
| "step dec (Encoded i) st = encoded i st"
| "step dec (Ended n) st = onended n st"
| "step dec (Unmount r) st = stopEverything (renderStream r) st"

fun run :: "(string \<Rightarrow> real option) \<Rightarrow> event list \<Rightarrow> app \<Rightarrow> app" where
  "run dec [] st = st"
| "run dec (ev # evs) st = run dec evs (step dec ev st)"

section \<open>Vocabulary of the properties\<close>

text \<open>A state with its console log emptied: what is left is what the handlers read.\<close>

definition withoutConsole :: "app \<Rightarrow> app" where
  "withoutConsole st = st \<lparr> console := [] \<rparr>"

text \<open>
  The condition of line 96, on the transcript and the first reading of the wall clock: the
  last message exists, is the model's, and is less than 2000 ms old.
\<close>

definition mergeable :: "Clocks \<Rightarrow> Message list \<Rightarrow> bool" where
  "mergeable c prev =
    (prev \<noteq> [] \<and> role (last prev) = Model \<and> dateRecent c - timestamp (last prev) < 2000)"

text \<open>
  What every transcript built by the updater satisfies: timestamps in order, every message
  the model's, and no id later than its timestamp.
\<close>

definition assembled :: "Message list \<Rightarrow> bool" where
  "assembled ms =
    (sorted (map timestamp ms) \<and> list_all (\<lambda>m. role m = Model \<and> msgId m \<le> timestamp m) ms)"

text \<open>
  The end of the interval of a unit: read exactly, and as the scheduler computes it, with
  the addition of doubles.
\<close>

definition exactEnd :: "PlaybackUnit \<Rightarrow> real" where
  "exactEnd u = scheduledStart u + duration u"

definition scheduledEnd :: "PlaybackUnit \<Rightarrow> real" where
  "scheduledEnd u = fadd (scheduledStart u) (duration u)"

text \<open>
  Two units overlap when their half-open intervals, from \<open>scheduledStart\<close> to the end
  given by \<open>e\<close>, have a point in common.
\<close>

definition overlap :: "(PlaybackUnit \<Rightarrow> real) \<Rightarrow> PlaybackUnit \<Rightarrow> PlaybackUnit \<Rightarrow> bool" where
  "overlap e u v = (max (scheduledStart u) (scheduledStart v) < min (e u) (e v))"

fun nonOverlapping :: "(PlaybackUnit \<Rightarrow> real) \<Rightarrow> PlaybackUnit list \<Rightarrow> bool" where
  "nonOverlapping e [] = True"
| "nonOverlapping e (u # us) = (list_all (\<lambda>v. \<not> overlap e u v) us \<and> nonOverlapping e us)"

text \<open>
  Whether the handler reaches the scheduler for a message.
\<close>

definition schedules :: "(string \<Rightarrow> real option) \<Rightarrow> LiveServerMessage \<Rightarrow> app \<Rightarrow> bool" where
  "schedules dec msg st =
    (case inlineData msg of
       None \<Rightarrow> False
     | Some b \<Rightarrow> b \<noteq> [] \<and> audioContextRef st \<noteq> None \<and> dec b \<noteq> None)"

text \<open>
  No unit of the run takes the look-ahead branch of line 124: each one arrives when
  \<^verbatim>\<open>nextStartTimeRef\<close> is not above the sum, in doubles, of the clock reading and 0.5.
\<close>

fun noLookaheadReset :: "(string \<Rightarrow> real option) \<Rightarrow> (Clocks \<times> LiveServerMessage) list \<Rightarrow> app \<Rightarrow> bool" where
  "noLookaheadReset dec [] st = True"
| "noLookaheadReset dec ((c, msg) # rest) st =
    ((schedules dec msg st \<longrightarrow> nextStartTimeRef st \<le> fadd (currentTime c) 0.5)
     \<and> noLookaheadReset dec rest (onmessage dec c msg st))"

text \<open>
  The messages of a quiet run: none carries the interruption flag, and every clock
  reading is a double that is not negative.
\<close>

definition quiet :: "(Clocks \<times> LiveServerMessage) list \<Rightarrow> bool" where
  "quiet evs =
    list_all (\<lambda>(c, msg). \<not> interrupted msg \<and> 0 \<le> currentTime c \<and> representable (currentTime c))
      evs"

text \<open>
  \<^verbatim>\<open>nextStartTimeRef\<close> is a double that is not negative; the units started so far are
  in order, disjoint up to their scheduled ends, and over by \<^verbatim>\<open>nextStartTimeRef\<close>.
\<close>

definition chained :: "app \<Rightarrow> bool" where
  "chained st =
    (0 \<le> nextStartTimeRef st \<and> representable (nextStartTimeRef st) \<and>
     nonOverlapping scheduledEnd (started st) \<and> sorted (map scheduledStart (started st)) \<and>
     list_all (\<lambda>u. scheduledStart u \<le> nextStartTimeRef st \<and>
                    scheduledEnd u \<le> nextStartTimeRef st) (started st))"

text \<open>
  Example data: a reading of the playback clock, a message that carries only an audio
  payload, and the state of a session brought up from the first render with the microphone
  on (the click, the microphone granted with one track, the channel opened).
\<close>

definition playbackClock :: "real \<Rightarrow> Clocks" where
  "playbackClock t = \<lparr> currentTime = t, dateRecent = 0, dateId = 0, dateStamp = 0 \<rparr>"

definition audioChunk :: "string \<Rightarrow> LiveServerMessage" where
  "audioChunk b = \<lparr> outputTranscription = None, inlineData = Some b, interrupted = False \<rparr>"

definition connected :: app where
  "connected =
    run (\<lambda>b. None) [ClickToggle, Resumed (render initial) (Established [7]), OnOpen] initial"

text \<open>
  The live intervals are exactly the one whose handle \<^verbatim>\<open>frameIntervalRef\<close> holds, and
  handles are positive.
\<close>

definition timerInv :: "app \<Rightarrow> bool" where
  "timerInv st =
    (0 < nextTimer st \<and> frameIntervalRef st \<noteq> Some 0 \<and>
     map fst (timers st) = (case frameIntervalRef st of None \<Rightarrow> [] | Some h \<Rightarrow> [h]))"

text \<open>
  The entries of a log that belong to one outbound stream, named by its MIME type.
\<close>

definition ofStream :: "string \<Rightarrow> nat \<times> RealtimeInput \<Rightarrow> bool" where
  "ofStream mime e = (case snd e of Media m d \<Rightarrow> m = mime | Content r t \<Rightarrow> False)"

text \<open>
  The encoding \<open>i\<close> that completes is, within its stream, the oldest one in flight; and a
  run of events in which every completion is such.
\<close>

definition oldestFirst :: "string \<Rightarrow> nat \<Rightarrow> app \<Rightarrow> bool" where
  "oldestFirst mime i st =
    (case map_of (encoding st) i of
       None \<Rightarrow> True
     | Some e \<Rightarrow>
         if ofStream mime e
         then (case filter (\<lambda>(j, e'). ofStream mime e') (encoding st) of
                 [] \<Rightarrow> False
               | (j, e') # rest \<Rightarrow> j = i)
         else True)"

fun inOrder :: "string \<Rightarrow> (string \<Rightarrow> real option) \<Rightarrow> event list \<Rightarrow> app \<Rightarrow> bool" where
  "inOrder mime dec [] st = True"
| "inOrder mime dec (ev # evs) st =
    ((case ev of Encoded i \<Rightarrow> oldestFirst mime i st | _ \<Rightarrow> True)
     \<and> inOrder mime dec evs (step dec ev st))"

text \<open>
  Encodings in flight have distinct handles below the next one, and within a stream what
  has been handed to the channel, followed by what is still being encoded, is what was
  captured, in the order of capture.
\<close>

definition pipelineInv :: "string \<Rightarrow> app \<Rightarrow> bool" where
  "pipelineInv mime st =
    (distinct (map fst (encoding st)) \<and>
     list_all (\<lambda>j. j < nextEncoding st) (map fst (encoding st)) \<and>
     filter (ofStream mime) (outbound st) @ filter (ofStream mime) (map snd (encoding st)) =
       filter (ofStream mime) (captured st))"

section \<open>Rounding\<close>

text \<open>
  The exponent brackets a positive number between two powers of two, rounding keeps a
  number within its bracket, is monotone and leaves a double as it is. So the sum of a
  double and a number that is not negative is a double that is not below the first.
\<close>

declare halvings.simps [simp del] doublings.simps [simp del]

lemma halvings_bounds:
  "1 \<le> x \<Longrightarrow> 2 ^ halvings x \<le> x \<and> x < 2 ^ Suc (halvings x)"
proof (induction x rule: halvings.induct)
  case (1 x)
  show ?case
  proof (cases "x < 2")
    case True
    with "1.prems" show ?thesis by (subst (1 2) halvings.simps) simp
  next
    case False
    then have "1 \<le> x / 2" by simp
    from "1.IH"[OF False this] False show ?thesis
      by (subst (1 2) halvings.simps) (simp add: field_simps)
  qed
qed

lemma doublings_bounds:
  "0 < x \<Longrightarrow> x < 1 \<Longrightarrow> 1 \<le> x * 2 ^ doublings x \<and> x * 2 ^ doublings x < 2"
proof (induction x rule: doublings.induct)
  case (1 x)
  from "1.prems" have go: "\<not> (x \<le> 0 \<or> 1 \<le> x)" by simp
  show ?case
  proof (cases "x * 2 < 1")
    case True
    from "1.IH"[OF go _ True] "1.prems" go show ?thesis
      by (subst (1 2) doublings.simps) (simp add: mult.assoc)
  next
    case False
    then have "doublings (x * 2) = 0" by (subst doublings.simps) simp
    with False "1.prems" go show ?thesis
      by (subst (1 2) doublings.simps) simp
  qed
qed

lemma exponent_bounds:
  assumes "0 < x"
  shows "2 powi exponent x \<le> x" and "x < 2 powi (exponent x + 1)"
proof -
  have "2 powi exponent x \<le> x \<and> x < 2 powi (exponent x + 1)"
  proof (cases "1 \<le> x")
    case True
    with assms have e: "exponent x = int (halvings x)" by (simp add: exponent_def)
    have "int (halvings x) + 1 = int (Suc (halvings x))" by simp
    with halvings_bounds[OF True] show ?thesis
      unfolding e by (simp only: power_int_of_nat) 
  next
    case False
    with assms have e: "exponent x = - int (doublings x)" by (simp add: exponent_def)
    from False have lt: "x < 1" by simp
    note b = doublings_bounds[OF assms lt]
    have p: "(2::real) powi (- int (doublings x)) = 1 / 2 ^ doublings x"
      by (simp add: power_int_minus field_simps)
    have "(2::real) powi (- int (doublings x) + 1) = 2 powi (- int (doublings x)) * 2 powi 1"
      by (rule power_int_add) simp
    then have q: "(2::real) powi (- int (doublings x) + 1) = 2 / 2 ^ doublings x"
      unfolding p by simp
    from b show ?thesis unfolding e p q by (simp add: field_simps)
  qed
  then show "2 powi exponent x \<le> x" and "x < 2 powi (exponent x + 1)" by simp_all
qed

lemma exponent_unique:
  assumes "0 < x" and "2 powi e \<le> x" and "x < 2 powi (e + 1)"
  shows "exponent x = e"
proof (rule ccontr)
  assume ne: "exponent x \<noteq> e"
  note b = exponent_bounds[OF assms(1)]
  show False
  proof (cases "exponent x < e")
    case True
    then have "exponent x + 1 \<le> e" by simp
    then have "(2::real) powi (exponent x + 1) \<le> 2 powi e"
      by (intro power_int_increasing) simp_all
    with b(2) assms(2) show False by linarith
  next
    case False
    with ne have "e + 1 \<le> exponent x" by simp
    then have "(2::real) powi (e + 1) \<le> 2 powi exponent x"
      by (intro power_int_increasing) simp_all
    with b(1) assms(3) show False by linarith
  qed
qed

lemma roundHalfEven_of_int: "roundHalfEven (of_int n) = n"
  by (simp add: roundHalfEven_def)

lemma roundHalfEven_range:
  "\<lfloor>y\<rfloor> \<le> roundHalfEven y" "roundHalfEven y \<le> \<lfloor>y\<rfloor> + 1"
  by (simp_all add: roundHalfEven_def Let_def)

lemma roundHalfEven_mono:
  assumes "y \<le> z"
  shows "roundHalfEven y \<le> roundHalfEven z"
proof (cases "\<lfloor>y\<rfloor> = \<lfloor>z\<rfloor>")
  case True
  from assms have "y - of_int \<lfloor>z\<rfloor> \<le> z - of_int \<lfloor>z\<rfloor>" by simp
  then show ?thesis
    unfolding roundHalfEven_def Let_def True by auto
next
  case False
  from assms have "\<lfloor>y\<rfloor> \<le> \<lfloor>z\<rfloor>" by (rule floor_mono)
  with False have "\<lfloor>y\<rfloor> + 1 \<le> \<lfloor>z\<rfloor>" by simp
  with roundHalfEven_range(2)[of y] roundHalfEven_range(1)[of z] show ?thesis by linarith
qed

lemma ulp_pos: "0 < ulp x"
  by (simp add: ulp_def)

lemma pow52: "(2::real) powi e = 2 ^ 52 * 2 powi (e - 52)"
proof -
  have "(2::real) powi (52 + (e - 52)) = 2 powi 52 * 2 powi (e - 52)"
    by (rule power_int_add) simp
  then show ?thesis by simp
qed

lemma ulp_scale:
  "2 powi exponent x = 2 ^ 52 * ulp x" "2 powi (exponent x + 1) = 2 ^ 53 * ulp x"
proof -
  have "(2::real) powi (52 + (exponent x - 52)) = 2 powi 52 * 2 powi (exponent x - 52)"
    by (rule power_int_add) simp
  then show "2 powi exponent x = 2 ^ 52 * ulp x" by (simp add: ulp_def)
  have "(2::real) powi (53 + (exponent x - 52)) = 2 powi 53 * 2 powi (exponent x - 52)"
    by (rule power_int_add) simp
  moreover have "53 + (exponent x - 52) = exponent x + 1" by simp
  ultimately show "2 powi (exponent x + 1) = 2 ^ 53 * ulp x" by (simp add: ulp_def)
qed

lemma significand_range:
  assumes "0 < x"
  shows "2 ^ 52 \<le> roundHalfEven (x / ulp x)" and "roundHalfEven (x / ulp x) \<le> 2 ^ 53"
proof -
  note b = exponent_bounds[OF assms]
  from b(1) have "(2::real) ^ 52 * ulp x \<le> x" by (simp add: ulp_scale)
  then have "of_int (2 ^ 52) \<le> x / ulp x"
    using ulp_pos[of x] by (simp add: field_simps)
  from roundHalfEven_mono[OF this] show "2 ^ 52 \<le> roundHalfEven (x / ulp x)"
    by (simp only: roundHalfEven_of_int)
  from b(2) have "x \<le> (2::real) ^ 53 * ulp x" by (simp add: ulp_scale)
  then have "x / ulp x \<le> of_int (2 ^ 53)"
    using ulp_pos[of x] by (simp add: field_simps)
  from roundHalfEven_mono[OF this] show "roundHalfEven (x / ulp x) \<le> 2 ^ 53"
    by (simp only: roundHalfEven_of_int)
qed

lemma fl_bounds:
  assumes "0 < x"
  shows "2 powi exponent x \<le> fl x" and "fl x \<le> 2 powi (exponent x + 1)"
proof -
  from assms have f: "fl x = of_int (roundHalfEven (x / ulp x)) * ulp x"
    by (simp add: fl_def)
  from significand_range(1)[OF assms]
  have "(2::real) ^ 52 \<le> of_int (roundHalfEven (x / ulp x))"
    by (metis of_int_le_iff of_int_numeral of_int_power)
  then show "2 powi exponent x \<le> fl x"
    unfolding f ulp_scale using ulp_pos[of x] by (simp add: mult_right_mono)
  from significand_range(2)[OF assms]
  have "of_int (roundHalfEven (x / ulp x)) \<le> (2::real) ^ 53"
    by (metis of_int_le_iff of_int_numeral of_int_power)
  then show "fl x \<le> 2 powi (exponent x + 1)"
    unfolding f ulp_scale using ulp_pos[of x] by (simp add: mult_right_mono)
qed

lemma fl_pos: "0 < x \<Longrightarrow> 0 < fl x"
  using fl_bounds(1)[of x] zero_less_power_int[of "2::real" "exponent x"] by linarith

lemma exponent_mono:
  assumes "0 < x" and "x \<le> y"
  shows "exponent x \<le> exponent y"
proof (rule ccontr)
  assume "\<not> exponent x \<le> exponent y"
  then have "exponent y + 1 \<le> exponent x" by simp
  then have "(2::real) powi (exponent y + 1) \<le> 2 powi exponent x"
    by (intro power_int_increasing) simp_all
  moreover from assms have "0 < y" by simp
  ultimately show False
    using exponent_bounds(2)[of y] exponent_bounds(1)[OF assms(1)] assms(2) by linarith
qed

lemma fl_mono:
  assumes "0 < x" and "x \<le> y"
  shows "fl x \<le> fl y"
proof (cases "exponent x = exponent y")
  case True
  then have u: "ulp x = ulp y" by (simp add: ulp_def)
  from assms have "x / ulp y \<le> y / ulp y"
    using ulp_pos[of y] by (simp add: divide_right_mono)
  from roundHalfEven_mono[OF this]
  have "of_int (roundHalfEven (x / ulp y)) * ulp y \<le> of_int (roundHalfEven (y / ulp y)) * ulp y"
    using ulp_pos[of y] by (simp add: mult_right_mono)
  with assms show ?thesis by (simp add: fl_def u)
next
  case False
  with exponent_mono[OF assms] have "exponent x + 1 \<le> exponent y" by simp
  then have "(2::real) powi (exponent x + 1) \<le> 2 powi exponent y"
    by (intro power_int_increasing) simp_all
  moreover from assms have "0 < y" by simp
  ultimately show ?thesis
    using fl_bounds(2)[OF assms(1)] fl_bounds(1)[of y] by linarith
qed

lemma fl_pos_eq: "0 < z \<Longrightarrow> fl z = of_int (roundHalfEven (z / ulp z)) * ulp z"
  by (simp add: fl_def)

lemma fl_idem:
  assumes "0 < x"
  shows "fl (fl x) = fl x"
proof -
  let ?n = "roundHalfEven (x / ulp x)"
  from assms have f: "fl x = of_int ?n * ulp x" by (simp add: fl_def)
  have p: "0 < fl x" using assms by (rule fl_pos)
  show ?thesis
  proof (cases "?n = 2 ^ 53")
    case True
    then have z: "fl x = 2 powi (exponent x + 1)" by (simp add: f ulp_scale)
    have "(2::real) powi (exponent x + 1) < 2 powi (exponent x + 1 + 1)"
      by (intro power_int_strict_increasing) simp_all
    with z have "exponent (fl x) = exponent x + 1"
      using p by (intro exponent_unique) simp_all
    then have u: "ulp (fl x) = 2 powi (exponent x + 1 - 52)" by (simp add: ulp_def)
    have s: "fl x = of_int (2 ^ 52) * ulp (fl x)"
      unfolding u unfolding z using pow52[of "exponent x + 1"] by simp
    then have "fl x / ulp (fl x) = of_int (2 ^ 52)"
      using ulp_pos[of "fl x"] by (simp add: field_simps)
    then have "roundHalfEven (fl x / ulp (fl x)) = 2 ^ 52"
      by (simp only: roundHalfEven_of_int)
    with fl_pos_eq[OF p] have "fl (fl x) = of_int (2 ^ 52) * ulp (fl x)"
      by (simp only:)
    with s show ?thesis by (simp only:)
  next
    case False
    with significand_range(2)[OF assms] have "?n < 2 ^ 53" by simp
    then have "of_int ?n < (2::real) ^ 53"
      by (metis of_int_less_iff of_int_numeral of_int_power)
    then have "fl x < 2 powi (exponent x + 1)"
      unfolding f ulp_scale using ulp_pos[of x] by (simp add: mult_strict_right_mono)
    with fl_bounds(1)[OF assms] have "exponent (fl x) = exponent x"
      using p by (intro exponent_unique) simp_all
    then have u: "ulp (fl x) = ulp x" by (simp add: ulp_def)
    have "fl x / ulp x = of_int ?n" using ulp_pos[of x] by (simp add: f)
    then have "roundHalfEven (fl x / ulp x) = ?n" by (simp only: roundHalfEven_of_int)
    with fl_pos_eq[OF p] have "fl (fl x) = of_int ?n * ulp x"
      unfolding u by (simp only:)
    with f show ?thesis by (simp only:)
  qed
qed

lemma fl_zero: "fl 0 = 0"
  by (simp add: fl_def)

lemma fadd_representable: "0 \<le> x + y \<Longrightarrow> representable (fadd x y)"
  by (cases "x + y = 0") (simp_all add: representable_def fadd_def fl_zero fl_idem)

lemma fadd_nonneg: "0 \<le> x + y \<Longrightarrow> 0 \<le> fadd x y"
  using fl_pos[of "x + y"] by (cases "x + y = 0") (simp_all add: fadd_def fl_zero less_imp_le)

lemma fadd_ge:
  assumes "0 \<le> s" and "representable s" and "0 \<le> d"
  shows "s \<le> fadd s d"
proof (cases "s = 0")
  case True
  with assms(3) show ?thesis using fadd_nonneg[of s d] by simp
next
  case False
  with assms(1) have "0 < s" by simp
  moreover from assms(3) have "s \<le> s + d" by simp
  ultimately have "fl s \<le> fl (s + d)" by (rule fl_mono)
  with assms(2) show ?thesis by (simp add: representable_def fadd_def)
qed

section \<open>Concrete runs\<close>

text \<open>
  The definitions that a concrete run unfolds, and the connected example state in full.
\<close>

lemmas handlers =
  handleToggle_def connectToGemini_def ensureAudioContext_def connectResumed_def
  startVideoStreaming_def clearInterval_def onopen_def render_def initial_def Let_def
  toggleMic_def onaudioprocess_def blobToBase64_def encoded_def disconnect_def
  stopEverything_def clickTestConnection_def handleTestConnection_def

lemma connected_eq:
  "connected =
    \<lparr> status = CONNECTED, messages = [], error = None, isMicOn = True,
      mediaStream = Some [7], audioContextRef = Some AudioContext, nextStartTimeRef = 0,
      frameIntervalRef = Some 1, sourcesRef = [], sessionPromiseRef = Some 0,
      timers = [(1, 0)], nextTimer = 2, nextNode = 0, nextSession = 1,
      processors = [\<lparr> procMicOn = True, procSession = 0 \<rparr>],
      encoding = [], nextEncoding = 0, captured = [], started = [], stopped = [],
      stoppedTracks = [], console = [], outbound = [] \<rparr>"
  by (simp add: connected_def handlers)

text \<open>
  Sums of doubles that the runs below meet, and doubles among their clock readings.
\<close>

lemma sums:
  "fadd 0 (1 / 2) = 1 / 2"
  "fadd (1 / 2) (1 / 2) = 1"
  "fadd (1 / 8) (1 / 2) = 5 / 8"
  "fadd 0 (3602879701896397 / 36028797018963968) = 3602879701896397 / 36028797018963968"
  "fadd (3602879701896397 / 36028797018963968) (3152519739159347 / 4503599627370496) =
     7205759403792793 / 9007199254740992"
  by code_simp+

lemma doubles: "representable 0" "representable (1 / 2)" "representable (1 / 8)"
  by code_simp+

lemma sum_3_2: "fadd 3 2 = 5"
  by code_simp

lemma sum_R2:
  "fadd (6148914691236517 / 576460752303423488) (1 / 2) = 4599676419421067 / 9007199254740992"
  by code_simp

lemmas message_handler =
  playbackClock_def audioChunk_def ensureAudioContext_def initial_def
  onmessage_def audioOutput_def scheduler_def set_add_def schedules_def Let_def

section \<open>The playback scheduler\<close>

text \<open>
  Claim C1, as stated, fails. Two units of 0.5 s are handled at the clock reading
  0.010666666666666666 (two render quanta at 24 kHz). After the first,
  \<^verbatim>\<open>nextStartTimeRef\<close> is the double 0.5106666666666667, which is not the exact sum of the
  start and the duration, and which in exact arithmetic is more than 0.5 above the clock.
  The second unit is not reset all the same: the sum of the clock reading and 0.5 in
  doubles is that same number, and the unit is started there.
\<close>

theorem scheduler_rounds:
  "nextStartTimeRef (onmessages (\<lambda>b. Some (1 / 2))
      [(playbackClock (6148914691236517 / 576460752303423488), audioChunk ''AAAA'')]
      (ensureAudioContext initial)) = 4599676419421067 / 9007199254740992
   \<and> started (onmessages (\<lambda>b. Some (1 / 2))
      [(playbackClock (6148914691236517 / 576460752303423488), audioChunk ''AAAA''),
       (playbackClock (6148914691236517 / 576460752303423488), audioChunk ''AAAA'')]
      (ensureAudioContext initial)) =
     [\<lparr> node = 0, scheduledStart = 6148914691236517 / 576460752303423488, duration = 1 / 2 \<rparr>,
      \<lparr> node = 1, scheduledStart = 4599676419421067 / 9007199254740992, duration = 1 / 2 \<rparr>]
   \<and> (4599676419421067 / 9007199254740992 :: real) >
       6148914691236517 / 576460752303423488 + 0.5
   \<and> (4599676419421067 / 9007199254740992 :: real) \<noteq>
       6148914691236517 / 576460752303423488 + 1 / 2"
  by (simp add: playbackClock_def audioChunk_def ensureAudioContext_def initial_def
      onmessage_def audioOutput_def scheduler_def set_add_def Let_def sum_R2)

text \<open>
  Claim C1, amended. For a message whose audio payload decodes, handled with an audio
  context, the handler reads the clock; if \<^verbatim>\<open>nextStartTimeRef\<close> is before the clock, or
  above the sum in doubles of the clock and 0.5, the start time is the clock reading,
  otherwise it is \<^verbatim>\<open>nextStartTimeRef\<close>; the unit is started at that time and the audio
  branch leaves \<^verbatim>\<open>nextStartTimeRef\<close> at the sum in doubles of that time and the duration
  of the unit. That is its value after the handler, unless the message also carries the
  interruption flag, which sets it to 0.
\<close>

theorem scheduler_step:
  assumes "inlineData msg = Some b" and "b \<noteq> []" and "dec b = Some dur"
    and "audioContextRef st \<noteq> None"
  shows "started (onmessage dec c msg st) =
           started st @
             [\<lparr> node = nextNode st,
                scheduledStart =
                  (if nextStartTimeRef st < currentTime c \<or>
                      nextStartTimeRef st > fadd (currentTime c) 0.5
                   then currentTime c else nextStartTimeRef st),
                duration = dur \<rparr>]
       \<and> (\<exists>s. audioOutput dec (currentTime c) b st = Continue s \<and>
              nextStartTimeRef s =
                fadd (if nextStartTimeRef st < currentTime c \<or>
                         nextStartTimeRef st > fadd (currentTime c) 0.5
                      then currentTime c else nextStartTimeRef st) dur)
       \<and> nextStartTimeRef (onmessage dec c msg st) =
           (if interrupted msg then 0
            else fadd (if nextStartTimeRef st < currentTime c \<or>
                          nextStartTimeRef st > fadd (currentTime c) 0.5
                       then currentTime c else nextStartTimeRef st) dur)"
  using assms
  by (auto simp add: onmessage_def audioOutput_def scheduler_def interruption_def Let_def
      split: option.splits)

theorem scheduler_step_witness:
  "started (onmessage (\<lambda>b. Some 2) (playbackClock 3) (audioChunk ''AAAA'')
       (ensureAudioContext initial))
     = [\<lparr> node = 0, scheduledStart = 3, duration = 2 \<rparr>]
   \<and> nextStartTimeRef (onmessage (\<lambda>b. Some 2) (playbackClock 3) (audioChunk ''AAAA'')
       (ensureAudioContext initial)) = 5"
proof -
  have p: "inlineData (audioChunk ''AAAA'') = Some ''AAAA''" "''AAAA'' \<noteq> []"
    "(\<lambda>b. Some (2::real)) ''AAAA'' = Some 2"
    "audioContextRef (ensureAudioContext initial) \<noteq> None"
    by (simp_all add: audioChunk_def ensureAudioContext_def initial_def)
  have q: "nextStartTimeRef (ensureAudioContext initial) = 0"
    "started (ensureAudioContext initial) = []" "nextNode (ensureAudioContext initial) = 0"
    "currentTime (playbackClock 3) = 3" "\<not> interrupted (audioChunk ''AAAA'')"
    by (simp_all add: audioChunk_def ensureAudioContext_def initial_def playbackClock_def)
  from scheduler_step[of "audioChunk ''AAAA''" "''AAAA''" "\<lambda>b. Some 2" 2
      "ensureAudioContext initial" "playbackClock 3", OF p]
  show ?thesis using q by (simp add: sum_3_2)
qed

subsection \<open>Intervals of the scheduled units\<close>

text \<open>
  The executable test \<open>overlap\<close> is the intersection of the half-open intervals.
\<close>

lemma overlap_interval:
  "overlap e u v \<longleftrightarrow> {scheduledStart u ..< e u} \<inter> {scheduledStart v ..< e v} \<noteq> {}"
proof
  assume "overlap e u v"
  then have "max (scheduledStart u) (scheduledStart v) \<in>
      {scheduledStart u ..< e u} \<inter> {scheduledStart v ..< e v}"
    by (simp add: overlap_def)
  then show "{scheduledStart u ..< e u} \<inter> {scheduledStart v ..< e v} \<noteq> {}" by blast
next
  assume "{scheduledStart u ..< e u} \<inter> {scheduledStart v ..< e v} \<noteq> {}"
  then obtain t where "t \<in> {scheduledStart u ..< e u} \<inter> {scheduledStart v ..< e v}" by blast
  then have "scheduledStart u \<le> t" "t < e u" "scheduledStart v \<le> t" "t < e v" by simp_all
  then show "overlap e u v" by (simp add: overlap_def)
qed

lemma nonOverlapping_snoc:
  "nonOverlapping e (us @ [v]) \<longleftrightarrow> nonOverlapping e us \<and> (\<forall>u\<in>set us. \<not> overlap e u v)"
  by (induction us) (auto simp add: list_all_iff)

lemma chained_scheduler:
  assumes "chained st" and "nextStartTimeRef st \<le> fadd now 0.5" and "0 \<le> dur"
    and "0 \<le> now" and "representable now"
  shows "chained (scheduler now dur st)"
proof -
  let ?nst = "if nextStartTimeRef st < now then now else nextStartTimeRef st"
  let ?u = "\<lparr> node = nextNode st, scheduledStart = ?nst, duration = dur \<rparr>"
  have nst: "nextStartTimeRef st \<le> ?nst" by simp
  have pos: "0 \<le> ?nst" and rep: "representable ?nst"
    using assms(1,4,5) by (simp_all add: chained_def)
  have adv: "?nst \<le> fadd ?nst dur" using pos rep assms(3) by (rule fadd_ge)
  have pos': "0 \<le> fadd ?nst dur" using pos adv by linarith
  have rep': "representable (fadd ?nst dur)"
    using pos assms(3) by (intro fadd_representable) linarith
  have old: "\<forall>u\<in>set (started st). scheduledStart u \<le> nextStartTimeRef st \<and>
      scheduledEnd u \<le> nextStartTimeRef st"
    using assms(1) by (simp add: chained_def list_all_iff)
  have no: "\<forall>u\<in>set (started st). \<not> overlap scheduledEnd u ?u"
    using old nst by (auto simp add: overlap_def)
  have srt: "\<forall>u\<in>set (started st). scheduledStart u \<le> ?nst"
    using old nst by auto
  have upd: "\<forall>u\<in>set (started st). scheduledStart u \<le> fadd ?nst dur \<and>
      scheduledEnd u \<le> fadd ?nst dur"
    using old nst adv by auto
  have new: "scheduledEnd ?u = fadd ?nst dur" by (simp add: scheduledEnd_def)
  have sch: "scheduler now dur st =
      st \<lparr> nextStartTimeRef := fadd ?nst dur, started := started st @ [?u],
           sourcesRef := set_add (nextNode st) (sourcesRef st),
           nextNode := Suc (nextNode st) \<rparr>"
    using assms(2) by (simp add: scheduler_def Let_def)
  show ?thesis
    unfolding sch using assms(1) no srt upd pos' rep' adv new
    by (simp add: chained_def nonOverlapping_snoc sorted_append list_all_iff)
qed

lemma chained_onmessage:
  assumes "chained st" and "\<not> interrupted msg"
    and "0 \<le> currentTime c" and "representable (currentTime c)"
    and "schedules dec msg st \<longrightarrow> nextStartTimeRef st \<le> fadd (currentTime c) 0.5"
    and "\<forall>b d. dec b = Some d \<longrightarrow> 0 \<le> d"
  shows "chained (onmessage dec c msg st)"
proof -
  let ?st1 = "case outputTranscription msg of
                None \<Rightarrow> st
              | Some txt \<Rightarrow>
                  if txt \<noteq> [] then st \<lparr> messages := appendTranscription c txt (messages st) \<rparr>
                  else st"
  have st1: "chained ?st1" "nextStartTimeRef ?st1 = nextStartTimeRef st"
    "audioContextRef ?st1 = audioContextRef st"
    using assms(1) by (simp_all add: chained_def split: option.splits)
  show ?thesis
  proof (cases "schedules dec msg st")
    case True
    then obtain b d where b: "inlineData msg = Some b" "b \<noteq> []" "dec b = Some d"
      and a: "audioContextRef st \<noteq> None"
      by (auto simp add: schedules_def split: option.splits)
    from b assms(6) have d: "0 \<le> d" by blast
    from True assms(5) have "nextStartTimeRef ?st1 \<le> fadd (currentTime c) 0.5"
      using st1(2) by simp
    from chained_scheduler[OF st1(1) this d assms(3,4)] show ?thesis
      using b a assms(2) st1(3)
      by (auto simp add: onmessage_def audioOutput_def Let_def split: option.splits)
  next
    case False
    then show ?thesis
      using st1(1) assms(2)
      by (auto simp add: onmessage_def audioOutput_def schedules_def chained_def Let_def
          split: option.splits)
  qed
qed

lemma chained_onmessages:
  assumes "\<forall>b d. dec b = Some d \<longrightarrow> 0 \<le> d"
  shows "chained st \<Longrightarrow> quiet evs \<Longrightarrow>
    noLookaheadReset dec evs st \<Longrightarrow> chained (onmessages dec evs st)"
proof (induction evs arbitrary: st)
  case Nil
  then show ?case by simp
next
  case (Cons e evs)
  obtain c msg where e: "e = (c, msg)" by (cases e)
  from Cons.prems have "chained (onmessage dec c msg st)"
    using chained_onmessage[of st msg c dec] assms by (simp add: e quiet_def)
  moreover from Cons.prems have "quiet evs" by (simp add: quiet_def)
  ultimately show ?case using Cons by (simp add: e)
qed

text \<open>
  Claim C2, as stated, fails, in two ways. Three units of 0.5 s are handled with no
  interruption, at the clock readings 0, 0 and 0.125: the third finds
  \<^verbatim>\<open>nextStartTimeRef\<close> = 1, more than 0.5 s ahead of the clock, and is started at 0.125; its
  interval meets those of the first two, and its start is below the start of the second.
  And with no reset at all: units of 0.1 s, 0.7 s and 0.7 s are handled at the clock
  readings 0, 0 and 0.5; the sum in doubles of 0.1 and 0.7 is 0.7999999999999999, below
  the exact end of the second unit, and the third unit is started there.
\<close>

theorem lookahead_reset_overlaps:
  "quiet [(playbackClock 0, audioChunk ''AAAA''), (playbackClock 0, audioChunk ''AAAA''),
       (playbackClock (1 / 8), audioChunk ''AAAA'')]
   \<and> started (onmessages (\<lambda>b. Some (1 / 2))
        [(playbackClock 0, audioChunk ''AAAA''), (playbackClock 0, audioChunk ''AAAA''),
         (playbackClock (1 / 8), audioChunk ''AAAA'')]
        (ensureAudioContext initial))
      = [\<lparr> node = 0, scheduledStart = 0, duration = 1 / 2 \<rparr>,
         \<lparr> node = 1, scheduledStart = 1 / 2, duration = 1 / 2 \<rparr>,
         \<lparr> node = 2, scheduledStart = 1 / 8, duration = 1 / 2 \<rparr>]
   \<and> \<not> nonOverlapping exactEnd (started (onmessages (\<lambda>b. Some (1 / 2))
        [(playbackClock 0, audioChunk ''AAAA''), (playbackClock 0, audioChunk ''AAAA''),
         (playbackClock (1 / 8), audioChunk ''AAAA'')]
        (ensureAudioContext initial)))
   \<and> \<not> sorted (map scheduledStart (started (onmessages (\<lambda>b. Some (1 / 2))
        [(playbackClock 0, audioChunk ''AAAA''), (playbackClock 0, audioChunk ''AAAA''),
         (playbackClock (1 / 8), audioChunk ''AAAA'')]
        (ensureAudioContext initial))))
   \<and> quiet [(playbackClock 0, audioChunk ''A''), (playbackClock 0, audioChunk ''B''),
       (playbackClock (1 / 2), audioChunk ''B'')]
   \<and> noLookaheadReset
        (\<lambda>b. if b = ''A'' then Some (3602879701896397 / 36028797018963968)
             else Some (3152519739159347 / 4503599627370496))
        [(playbackClock 0, audioChunk ''A''), (playbackClock 0, audioChunk ''B''),
         (playbackClock (1 / 2), audioChunk ''B'')]
        (ensureAudioContext initial)
   \<and> started (onmessages
        (\<lambda>b. if b = ''A'' then Some (3602879701896397 / 36028797018963968)
             else Some (3152519739159347 / 4503599627370496))
        [(playbackClock 0, audioChunk ''A''), (playbackClock 0, audioChunk ''B''),
         (playbackClock (1 / 2), audioChunk ''B'')]
        (ensureAudioContext initial))
      = [\<lparr> node = 0, scheduledStart = 0,
           duration = 3602879701896397 / 36028797018963968 \<rparr>,
         \<lparr> node = 1, scheduledStart = 3602879701896397 / 36028797018963968,
           duration = 3152519739159347 / 4503599627370496 \<rparr>,
         \<lparr> node = 2, scheduledStart = 7205759403792793 / 9007199254740992,
           duration = 3152519739159347 / 4503599627370496 \<rparr>]
   \<and> \<not> nonOverlapping exactEnd (started (onmessages
        (\<lambda>b. if b = ''A'' then Some (3602879701896397 / 36028797018963968)
             else Some (3152519739159347 / 4503599627370496))
        [(playbackClock 0, audioChunk ''A''), (playbackClock 0, audioChunk ''B''),
         (playbackClock (1 / 2), audioChunk ''B'')]
        (ensureAudioContext initial)))"
proof -
  have units: "started (onmessages (\<lambda>b. Some (1 / 2))
        [(playbackClock 0, audioChunk ''AAAA''), (playbackClock 0, audioChunk ''AAAA''),
         (playbackClock (1 / 8), audioChunk ''AAAA'')]
        (ensureAudioContext initial))
      = [\<lparr> node = 0, scheduledStart = 0, duration = 1 / 2 \<rparr>,
         \<lparr> node = 1, scheduledStart = 1 / 2, duration = 1 / 2 \<rparr>,
         \<lparr> node = 2, scheduledStart = 1 / 8, duration = 1 / 2 \<rparr>]"
    by (simp add: message_handler sums)
  have calm: "quiet [(playbackClock 0, audioChunk ''AAAA''), (playbackClock 0, audioChunk ''AAAA''),
       (playbackClock (1 / 8), audioChunk ''AAAA'')]"
    "quiet [(playbackClock 0, audioChunk ''A''), (playbackClock 0, audioChunk ''B''),
       (playbackClock (1 / 2), audioChunk ''B'')]"
    by (simp_all add: quiet_def playbackClock_def audioChunk_def doubles)
  have clash: "overlap exactEnd \<lparr> node = 0, scheduledStart = 0, duration = 1 / 2 \<rparr>
      \<lparr> node = 2, scheduledStart = 1 / 8, duration = 1 / 2 \<rparr>"
    by (simp add: overlap_def exactEnd_def)
  have "\<not> (1 / 2 \<le> (1 / 8 :: real))" by simp
  then have falls: "\<not> sorted [0 :: real, 1 / 2, 1 / 8]" by (simp only: sorted2 simp_thms)
  have near: "noLookaheadReset
        (\<lambda>b. if b = ''A'' then Some (3602879701896397 / 36028797018963968)
             else Some (3152519739159347 / 4503599627370496))
        [(playbackClock 0, audioChunk ''A''), (playbackClock 0, audioChunk ''B''),
         (playbackClock (1 / 2), audioChunk ''B'')]
        (ensureAudioContext initial)"
    by (simp add: message_handler sums)
  have units': "started (onmessages
        (\<lambda>b. if b = ''A'' then Some (3602879701896397 / 36028797018963968)
             else Some (3152519739159347 / 4503599627370496))
        [(playbackClock 0, audioChunk ''A''), (playbackClock 0, audioChunk ''B''),
         (playbackClock (1 / 2), audioChunk ''B'')]
        (ensureAudioContext initial))
      = [\<lparr> node = 0, scheduledStart = 0,
           duration = 3602879701896397 / 36028797018963968 \<rparr>,
         \<lparr> node = 1, scheduledStart = 3602879701896397 / 36028797018963968,
           duration = 3152519739159347 / 4503599627370496 \<rparr>,
         \<lparr> node = 2, scheduledStart = 7205759403792793 / 9007199254740992,
           duration = 3152519739159347 / 4503599627370496 \<rparr>]"
    by (simp add: message_handler sums)
  have clash': "overlap exactEnd
      \<lparr> node = 1, scheduledStart = 3602879701896397 / 36028797018963968,
        duration = 3152519739159347 / 4503599627370496 \<rparr>
      \<lparr> node = 2, scheduledStart = 7205759403792793 / 9007199254740992,
        duration = 3152519739159347 / 4503599627370496 \<rparr>"
    by (simp add: overlap_def exactEnd_def)
  show ?thesis
    unfolding units units' using calm clash falls near clash' by simp
qed

text \<open>
  Claim C2, amended. In a run of the handler over messages in their order of arrival,
  with no interruption, in which no unit takes the look-ahead branch (each unit arrives
  when \<^verbatim>\<open>nextStartTimeRef\<close> is not above the sum in doubles of the clock and 0.5), the
  clock readings are doubles that are not negative and the decoder gives no negative
  duration, the intervals of the units started, each from its start to the sum in doubles
  of its start and its duration, are pairwise disjoint, and the starts are in
  non-decreasing order.
\<close>

theorem schedule_without_lookahead_reset:
  assumes "\<forall>b d. dec b = Some d \<longrightarrow> 0 \<le> d"
    and "quiet evs"
    and "0 \<le> nextStartTimeRef st" and "representable (nextStartTimeRef st)"
    and "noLookaheadReset dec evs (st \<lparr> started := [] \<rparr>)"
  shows "nonOverlapping scheduledEnd (started (onmessages dec evs (st \<lparr> started := [] \<rparr>)))
       \<and> sorted (map scheduledStart (started (onmessages dec evs (st \<lparr> started := [] \<rparr>))))"
proof -
  have "chained (st \<lparr> started := [] \<rparr>)" using assms(3,4) by (simp add: chained_def)
  from chained_onmessages[OF assms(1) this assms(2,5)] show ?thesis
    by (simp add: chained_def)
qed

theorem schedule_without_lookahead_reset_witness:
  "nonOverlapping scheduledEnd (started (onmessages (\<lambda>b. Some (1 / 2))
        [(playbackClock 0, audioChunk ''AAAA''), (playbackClock 0, audioChunk ''AAAA''),
         (playbackClock (1 / 2), audioChunk ''AAAA'')]
        ((ensureAudioContext initial) \<lparr> started := [] \<rparr>)))
   \<and> sorted (map scheduledStart (started (onmessages (\<lambda>b. Some (1 / 2))
        [(playbackClock 0, audioChunk ''AAAA''), (playbackClock 0, audioChunk ''AAAA''),
         (playbackClock (1 / 2), audioChunk ''AAAA'')]
        ((ensureAudioContext initial) \<lparr> started := [] \<rparr>))))
   \<and> map scheduledStart (started (onmessages (\<lambda>b. Some (1 / 2))
        [(playbackClock 0, audioChunk ''AAAA''), (playbackClock 0, audioChunk ''AAAA''),
         (playbackClock (1 / 2), audioChunk ''AAAA'')]
        ((ensureAudioContext initial) \<lparr> started := [] \<rparr>))) = [0, 1 / 2, 1]"
proof -
  have pos: "\<forall>b d. (\<lambda>b. Some (1 / 2 :: real)) b = Some d \<longrightarrow> 0 \<le> d" by simp
  have calm: "quiet
      [(playbackClock 0, audioChunk ''AAAA''), (playbackClock 0, audioChunk ''AAAA''),
       (playbackClock (1 / 2), audioChunk ''AAAA'')]"
    by (simp add: quiet_def playbackClock_def audioChunk_def doubles)
  have zero: "0 \<le> nextStartTimeRef (ensureAudioContext initial)"
    "representable (nextStartTimeRef (ensureAudioContext initial))"
    by (simp_all add: ensureAudioContext_def initial_def doubles)
  have near: "noLookaheadReset (\<lambda>b. Some (1 / 2))
      [(playbackClock 0, audioChunk ''AAAA''), (playbackClock 0, audioChunk ''AAAA''),
       (playbackClock (1 / 2), audioChunk ''AAAA'')]
      ((ensureAudioContext initial) \<lparr> started := [] \<rparr>)"
    by (simp add: message_handler sums)
  have vals: "map scheduledStart (started (onmessages (\<lambda>b. Some (1 / 2))
        [(playbackClock 0, audioChunk ''AAAA''), (playbackClock 0, audioChunk ''AAAA''),
         (playbackClock (1 / 2), audioChunk ''AAAA'')]
        ((ensureAudioContext initial) \<lparr> started := [] \<rparr>))) = [0, 1 / 2, 1]"
    by (simp add: message_handler sums)
  from schedule_without_lookahead_reset[OF pos calm zero near] vals show ?thesis by simp
qed

subsection \<open>Interruption\<close>

text \<open>
  The audio context is created before the session's callbacks exist and is never given
  up, so the handler always finds it.
\<close>

lemma audio_context_kept:
  "audioContextRef (connectToGemini st) \<noteq> None"
  "audioContextRef st \<noteq> None \<Longrightarrow> audioContextRef (step dec ev st) \<noteq> None"
proof -
  show "audioContextRef (connectToGemini st) \<noteq> None"
    by (simp add: connectToGemini_def ensureAudioContext_def split: option.splits)
  assume a: "audioContextRef st \<noteq> None"
  have "audioContextRef (step dec ev st) = audioContextRef st"
    using a
    by (cases ev)
      (auto simp add: handlers onclose_def onerror_def onended_def videoTick_def
        connectFailed_def onmessage_def audioOutput_def scheduler_def interruption_def
        split: option.splits Acquisition.splits prod.splits)
  with a show "audioContextRef (step dec ev st) \<noteq> None" by simp
qed

text \<open>
  Claim C3. On a message with the interruption flag, whatever the active set was (empty
  or not), every node of the set has \<^verbatim>\<open>stop\<close> called on it, as has a unit started by the
  same message; the set is empty afterwards and \<^verbatim>\<open>nextStartTimeRef\<close> is 0.
\<close>

theorem interruption_clears_playback:
  assumes "interrupted msg" and "audioContextRef st \<noteq> None"
  shows "sourcesRef (onmessage dec c msg st) = []
       \<and> nextStartTimeRef (onmessage dec c msg st) = 0
       \<and> set (sourcesRef st) \<subseteq> set (stopped (onmessage dec c msg st))
       \<and> node ` set (started (onmessage dec c msg st)) \<subseteq>
           node ` set (started st) \<union> set (stopped (onmessage dec c msg st))"
  using assms
  by (auto simp add: onmessage_def audioOutput_def scheduler_def interruption_def set_add_def
      Let_def split: option.splits)

theorem interruption_clears_playback_witness:
  "sourcesRef (onmessage (\<lambda>b. None) (playbackClock 1)
      \<lparr> outputTranscription = None, inlineData = None, interrupted = True \<rparr>
      (scheduler 0 1 (scheduler 0 1 (scheduler 0 1 connected)))) = []
   \<and> nextStartTimeRef (onmessage (\<lambda>b. None) (playbackClock 1)
      \<lparr> outputTranscription = None, inlineData = None, interrupted = True \<rparr>
      (scheduler 0 1 (scheduler 0 1 (scheduler 0 1 connected)))) = 0
   \<and> {0, 1, 2} \<subseteq> set (stopped (onmessage (\<lambda>b. None) (playbackClock 1)
      \<lparr> outputTranscription = None, inlineData = None, interrupted = True \<rparr>
      (scheduler 0 1 (scheduler 0 1 (scheduler 0 1 connected)))))"
proof -
  have a: "audioContextRef (scheduler 0 1 (scheduler 0 1 (scheduler 0 1 connected))) \<noteq> None"
    by (simp add: connected_eq scheduler_def Let_def)
  have s: "set (sourcesRef (scheduler 0 1 (scheduler 0 1 (scheduler 0 1 connected)))) = {0, 1, 2}"
    by (auto simp add: connected_eq scheduler_def set_add_def Let_def)
  have i: "interrupted \<lparr> outputTranscription = None, inlineData = None, interrupted = True \<rparr>"
    by simp
  from interruption_clears_playback[OF i a, of "\<lambda>b. None" "playbackClock 1"] s
  show ?thesis by simp
qed

subsection \<open>Decode failures\<close>

text \<open>
  The console log is only written, never read.
\<close>

lemma withoutConsole_onmessage:
  "withoutConsole (onmessage dec c msg (withoutConsole st)) = withoutConsole (onmessage dec c msg st)"
  by (simp add: withoutConsole_def onmessage_def audioOutput_def scheduler_def interruption_def
      Let_def split: option.splits)

lemma withoutConsole_onmessages:
  "withoutConsole s = withoutConsole t \<Longrightarrow>
    withoutConsole (onmessages dec evs s) = withoutConsole (onmessages dec evs t)"
proof (induction evs arbitrary: s t)
  case Nil
  then show ?case by simp
next
  case (Cons e evs)
  obtain c msg where e: "e = (c, msg)" by (cases e)
  have "withoutConsole (onmessage dec c msg s) = withoutConsole (onmessage dec c msg t)"
    using Cons.prems withoutConsole_onmessage[of dec c msg s] withoutConsole_onmessage[of dec c msg t]
    by simp
  from Cons.IH[OF this] show ?case by (simp add: e)
qed

text \<open>
  Claim C8. When the decoder fails on the audio payload of a message, the handler does
  what it does for the same message without the payload, and logs one error: no unit is
  started, the status is unchanged, \<^verbatim>\<open>nextStartTimeRef\<close> and the active set are unchanged
  (unless the message itself carries the interruption flag), and the messages handled
  afterwards leave the state they would have left had the payload never arrived, console
  log apart.
\<close>

theorem decode_failure_isolated:
  assumes "inlineData msg = Some b" and "b \<noteq> []" and "dec b = None"
    and "audioContextRef st \<noteq> None"
  shows "onmessage dec c msg st =
           (onmessage dec c (msg \<lparr> inlineData := None \<rparr>) st)
             \<lparr> console := console st @ [''Audio decoding error:''] \<rparr>
       \<and> status (onmessage dec c msg st) = status st
       \<and> started (onmessage dec c msg st) = started st
       \<and> (interrupted msg \<or>
            nextStartTimeRef (onmessage dec c msg st) = nextStartTimeRef st \<and>
            sourcesRef (onmessage dec c msg st) = sourcesRef st)
       \<and> withoutConsole (onmessages dec ((c, msg) # rest) st) =
           withoutConsole (onmessages dec ((c, msg \<lparr> inlineData := None \<rparr>) # rest) st)"
proof -
  have eq: "onmessage dec c msg st =
           (onmessage dec c (msg \<lparr> inlineData := None \<rparr>) st)
             \<lparr> console := console st @ [''Audio decoding error:''] \<rparr>"
    using assms
    by (auto simp add: onmessage_def audioOutput_def interruption_def Let_def split: option.splits)
  have frame: "status (onmessage dec c msg st) = status st"
    "started (onmessage dec c msg st) = started st"
    "interrupted msg \<or>
            nextStartTimeRef (onmessage dec c msg st) = nextStartTimeRef st \<and>
            sourcesRef (onmessage dec c msg st) = sourcesRef st"
    using assms
    by (auto simp add: onmessage_def audioOutput_def interruption_def Let_def split: option.splits)
  have "withoutConsole (onmessage dec c msg st) =
      withoutConsole (onmessage dec c (msg \<lparr> inlineData := None \<rparr>) st)"
    by (subst eq) (simp add: withoutConsole_def)
  from withoutConsole_onmessages[OF this]
  have "withoutConsole (onmessages dec ((c, msg) # rest) st) =
           withoutConsole (onmessages dec ((c, msg \<lparr> inlineData := None \<rparr>) # rest) st)"
    by simp
  with eq frame show ?thesis by blast
qed

theorem decode_failure_isolated_witness:
  "onmessage (\<lambda>b. if b = ''!!'' then None else Some 1) (playbackClock 1) (audioChunk ''!!'')
      connected = connected \<lparr> console := [''Audio decoding error:''] \<rparr>
   \<and> withoutConsole (onmessages (\<lambda>b. if b = ''!!'' then None else Some 1)
        [(playbackClock 1, audioChunk ''!!''), (playbackClock 1, audioChunk ''AAAA'')] connected) =
      withoutConsole (onmessages (\<lambda>b. if b = ''!!'' then None else Some 1)
        [(playbackClock 1, (audioChunk ''!!'') \<lparr> inlineData := None \<rparr>),
         (playbackClock 1, audioChunk ''AAAA'')] connected)"
proof -
  have p: "inlineData (audioChunk ''!!'') = Some ''!!''" "''!!'' \<noteq> []"
    by (simp_all add: audioChunk_def)
  have d: "(\<lambda>b. if b = ''!!'' then None else Some (1::real)) ''!!'' = None" by simp
  have a: "audioContextRef connected \<noteq> None" by (simp add: connected_eq)
  have n: "onmessage (\<lambda>b. if b = ''!!'' then None else Some 1) (playbackClock 1)
      ((audioChunk ''!!'') \<lparr> inlineData := None \<rparr>) connected = connected"
    by (simp add: onmessage_def audioChunk_def)
  have c: "console connected = []" by (simp add: connected_eq)
  note t = decode_failure_isolated[of "audioChunk ''!!''" "''!!''"
      "\<lambda>b. if b = ''!!'' then None else Some 1" connected "playbackClock 1"
      "[(playbackClock 1, audioChunk ''AAAA'')]", OF p d a]
  from t have "onmessage (\<lambda>b. if b = ''!!'' then None else Some 1) (playbackClock 1)
      (audioChunk ''!!'') connected = connected \<lparr> console := [''Audio decoding error:''] \<rparr>"
    unfolding n c by simp
  moreover from t have "withoutConsole (onmessages (\<lambda>b. if b = ''!!'' then None else Some 1)
        [(playbackClock 1, audioChunk ''!!''), (playbackClock 1, audioChunk ''AAAA'')] connected) =
      withoutConsole (onmessages (\<lambda>b. if b = ''!!'' then None else Some 1)
        [(playbackClock 1, (audioChunk ''!!'') \<lparr> inlineData := None \<rparr>),
         (playbackClock 1, audioChunk ''AAAA'')] connected)"
    by blast
  ultimately show ?thesis by blast
qed

section \<open>The transcript\<close>

lemma appendTranscription_eq:
  "appendTranscription c txt prev =
    (if mergeable c prev
     then butlast prev @ [(last prev) \<lparr> msgText := msgText (last prev) @ txt \<rparr>]
     else prev @ [\<lparr> msgId = dateId c, role = Model, msgText = txt, timestamp = dateStamp c \<rparr>])"
  by (cases prev) (simp_all add: appendTranscription_def mergeable_def Let_def)

lemma messages_onmessage:
  "messages (onmessage dec c msg st) =
    (case outputTranscription msg of
       None \<Rightarrow> messages st
     | Some txt \<Rightarrow> if txt \<noteq> [] then appendTranscription c txt (messages st) else messages st)"
  by (simp add: onmessage_def audioOutput_def scheduler_def interruption_def Let_def
      split: option.splits flow.splits)

lemma assembled_snoc:
  "assembled (ms @ [m]) \<longleftrightarrow>
     assembled ms \<and> role m = Model \<and> msgId m \<le> timestamp m \<and> (\<forall>x\<in>set ms. timestamp x \<le> timestamp m)"
  by (auto simp add: assembled_def sorted_append list_all_iff)

lemma assembled_last:
  assumes "assembled ms" and "m \<in> set ms"
  shows "timestamp m \<le> timestamp (last ms)" and "msgId m \<le> timestamp (last ms)"
proof -
  from assms(2) have ne: "ms \<noteq> []" by auto
  then obtain bs where ms: "ms = bs @ [last ms]"
    by (metis append_butlast_last_id)
  from assms(1) have "assembled (bs @ [last ms])" using ms by simp
  then have *: "\<forall>x\<in>set bs. timestamp x \<le> timestamp (last ms)"
    by (simp add: assembled_snoc)
  from assms(2) ms have "m \<in> set bs \<or> m = last ms"
    by (metis Un_iff empty_iff insert_iff list.simps(15) set_append empty_set)
  then show "timestamp m \<le> timestamp (last ms)" using * by auto
  moreover from assms have "msgId m \<le> timestamp m" by (simp add: assembled_def list_all_iff)
  ultimately show "msgId m \<le> timestamp (last ms)" by simp
qed

lemma assembled_merge:
  assumes "assembled ms" and "ms \<noteq> []"
  shows "assembled (butlast ms @ [(last ms) \<lparr> msgText := t \<rparr>])"
proof -
  from assms(2) have ms: "ms = butlast ms @ [last ms]" by simp
  from assms(1) have "assembled (butlast ms @ [last ms])" using ms by simp
  then show ?thesis by (simp add: assembled_snoc)
qed

lemma assembled_appendTranscription:
  assumes "assembled prev" and "dateRecent c \<le> dateId c" and "dateId c \<le> dateStamp c"
  shows "assembled (appendTranscription c txt prev)"
proof (cases "mergeable c prev")
  case True
  then show ?thesis using assms(1)
    by (simp add: appendTranscription_eq assembled_merge mergeable_def)
next
  case False
  have "\<forall>x\<in>set prev. timestamp x \<le> dateStamp c"
  proof
    fix x assume x: "x \<in> set prev"
    then have ne: "prev \<noteq> []" by auto
    from assms(1) x have "role (last prev) = Model"
      using ne by (simp add: assembled_def list_all_iff)
    with False ne have "timestamp (last prev) + 2000 \<le> dateRecent c"
      by (simp add: mergeable_def)
    moreover have "timestamp x \<le> timestamp (last prev)" using assembled_last(1)[OF assms(1) x] .
    ultimately show "timestamp x \<le> dateStamp c" using assms(2,3) by linarith
  qed
  with False assms show ?thesis
    by (simp add: appendTranscription_eq assembled_snoc)
qed

lemma fresh_id:
  assumes "assembled prev" and "dateRecent c \<le> dateId c" and "\<not> mergeable c prev"
  shows "dateId c \<notin> msgId ` set prev"
proof
  assume "dateId c \<in> msgId ` set prev"
  then obtain x where x: "x \<in> set prev" and id: "msgId x = dateId c" by auto
  then have ne: "prev \<noteq> []" by auto
  from assms(1) have "role (last prev) = Model"
    using ne by (simp add: assembled_def list_all_iff)
  with assms(3) ne have "timestamp (last prev) + 2000 \<le> dateRecent c"
    by (simp add: mergeable_def)
  moreover have "msgId x \<le> timestamp (last prev)" using assembled_last(2)[OF assms(1) x] .
  ultimately show False using assms(2) id by linarith
qed

text \<open>
  Claim C6. For a message with a non-empty text delta: when the last message of the
  transcript is the model's and less than 2000 ms old, the delta is appended to its text
  and nothing else of it changes (its timestamp and id are kept); otherwise a new message
  of the model is appended, with the delta as text and the current time as id and as
  timestamp. On a transcript built by the handler, with the wall clock not running
  backwards between the readings of one update, the result is again such a transcript and
  the id of a new message is not the id of any message already there.
\<close>

theorem transcript_merge_rule:
  assumes "outputTranscription msg = Some txt" and "txt \<noteq> []"
  shows "messages (onmessage dec c msg st) =
           (if mergeable c (messages st)
            then butlast (messages st) @
                   [(last (messages st)) \<lparr> msgText := msgText (last (messages st)) @ txt \<rparr>]
            else messages st @
                   [\<lparr> msgId = dateId c, role = Model, msgText = txt, timestamp = dateStamp c \<rparr>])
       \<and> (assembled (messages st) \<and> dateRecent c \<le> dateId c \<and> dateId c \<le> dateStamp c \<longrightarrow>
            assembled (messages (onmessage dec c msg st)) \<and>
            (mergeable c (messages st) \<or> dateId c \<notin> msgId ` set (messages st)))"
proof -
  have m: "messages (onmessage dec c msg st) = appendTranscription c txt (messages st)"
    using assms by (simp add: messages_onmessage)
  show ?thesis
    using assembled_appendTranscription [of "messages st" c "txt"]
      fresh_id [of "messages st" c]
    by (auto simp add: m appendTranscription_eq)
qed

theorem transcript_merge_rule_witness:
  "messages (onmessage (\<lambda>b. None)
       \<lparr> currentTime = 0, dateRecent = 1500, dateId = 1500, dateStamp = 1500 \<rparr>
       \<lparr> outputTranscription = Some '' there'', inlineData = None, interrupted = False \<rparr>
       (initial \<lparr> messages :=
          [\<lparr> msgId = 1000, role = Model, msgText = ''Hello'', timestamp = 1000 \<rparr>] \<rparr>))
     = [\<lparr> msgId = 1000, role = Model, msgText = ''Hello there'', timestamp = 1000 \<rparr>]
   \<and> messages (onmessage (\<lambda>b. None)
       \<lparr> currentTime = 0, dateRecent = 3100, dateId = 3100, dateStamp = 3100 \<rparr>
       \<lparr> outputTranscription = Some '' there'', inlineData = None, interrupted = False \<rparr>
       (initial \<lparr> messages :=
          [\<lparr> msgId = 1000, role = Model, msgText = ''Hello'', timestamp = 1000 \<rparr>] \<rparr>))
     = [\<lparr> msgId = 1000, role = Model, msgText = ''Hello'', timestamp = 1000 \<rparr>,
        \<lparr> msgId = 3100, role = Model, msgText = '' there'', timestamp = 3100 \<rparr>]
   \<and> (3100::int) \<notin> msgId ` set [\<lparr> msgId = 1000, role = Model, msgText = ''Hello'', timestamp = 1000 \<rparr>]"
  using transcript_merge_rule [of
      "\<lparr> outputTranscription = Some '' there'', inlineData = None, interrupted = False \<rparr>"
      "'' there''" "\<lambda>b. None"
      "\<lparr> currentTime = 0, dateRecent = 1500, dateId = 1500, dateStamp = 1500 \<rparr>"
      "initial \<lparr> messages :=
          [\<lparr> msgId = 1000, role = Model, msgText = ''Hello'', timestamp = 1000 \<rparr>] \<rparr>"]
    transcript_merge_rule [of
      "\<lparr> outputTranscription = Some '' there'', inlineData = None, interrupted = False \<rparr>"
      "'' there''" "\<lambda>b. None"
      "\<lparr> currentTime = 0, dateRecent = 3100, dateId = 3100, dateStamp = 3100 \<rparr>"
      "initial \<lparr> messages :=
          [\<lparr> msgId = 1000, role = Model, msgText = ''Hello'', timestamp = 1000 \<rparr>] \<rparr>"]
  by (simp add: initial_def mergeable_def assembled_def)

section \<open>Capture and dispatch\<close>

text \<open>
  Claim C4 does not hold of the code. Line 170 says that audio is sent only if the
  microphone is on, but the test of line 171 reads the value of \<^verbatim>\<open>isMicOn\<close> of the render
  that started the connection, not the current one. From the first render (microphone
  on) the user starts the interpreter, the microphone is granted and the session opens;
  the user mutes; a block is captured and its encoding completes: the status is CONNECTED,
  the microphone is off, and the block has been handed to the session.
\<close>

theorem muted_audio_still_sent:
  "status (run (\<lambda>b. None)
      [ClickToggle, Resumed (render initial) (Established [7]), OnOpen,
       ClickMic, AudioProcess 0 ''pcm'', Encoded 0] initial) = CONNECTED
   \<and> \<not> isMicOn (run (\<lambda>b. None)
      [ClickToggle, Resumed (render initial) (Established [7]), OnOpen,
       ClickMic, AudioProcess 0 ''pcm'', Encoded 0] initial)
   \<and> outbound (run (\<lambda>b. None)
      [ClickToggle, Resumed (render initial) (Established [7]), OnOpen,
       ClickMic, AudioProcess 0 ''pcm'', Encoded 0] initial) =
       [(0, Media ''audio/pcm;rate=16000'' ''pcm'')]"
  by (simp add: handlers)

text \<open>
  What the capture handlers do in every state: a block is forwarded exactly when the flag
  its handler closed over is on, and the status is not consulted; a tick of a live interval
  with a frame ready produces a video chunk whatever the mute gate. So a block captured
  after the session has closed is still handed to it.
\<close>

lemma capture_gates:
  assumes "k < length (processors st)" and "map_of (timers st) h = Some sessionPromise"
  shows "captured (step dec (AudioProcess k inputData) (st \<lparr> status := s \<rparr>)) =
           captured st @
             (if procMicOn (processors st ! k)
              then [(procSession (processors st ! k), Media ''audio/pcm;rate=16000'' inputData)]
              else [])
       \<and> (procMicOn (processors st ! k) \<or>
            step dec (AudioProcess k inputData) (st \<lparr> status := s \<rparr>) = st \<lparr> status := s \<rparr>)
       \<and> captured (step dec (VideoTick h (Some jpeg)) (st \<lparr> isMicOn := m \<rparr>)) =
           captured st @ [(sessionPromise, Media ''image/jpeg'' jpeg)]"
  using assms
  by (simp add: onaudioprocess_def videoTick_def blobToBase64_def)

lemma audio_forwarded_after_close:
  "status (run (\<lambda>b. None) [OnClose, AudioProcess 0 ''pcm'', Encoded 0] connected) = DISCONNECTED
   \<and> outbound (run (\<lambda>b. None) [OnClose, AudioProcess 0 ''pcm'', Encoded 0] connected) =
       [(0, Media ''audio/pcm;rate=16000'' ''pcm'')]"
  by (simp add: connected_eq handlers onclose_def)

text \<open>
  Claim C5, as stated, fails. Two audio blocks are captured in the order c1, c2; the
  encoding of c2 completes first; c2 is handed to the session before c1.
\<close>

theorem late_encoding_reorders:
  "captured (run (\<lambda>b. None)
      [AudioProcess 0 ''c1'', AudioProcess 0 ''c2'', Encoded 1, Encoded 0] connected) =
     [(0, Media ''audio/pcm;rate=16000'' ''c1''), (0, Media ''audio/pcm;rate=16000'' ''c2'')]
   \<and> outbound (run (\<lambda>b. None)
      [AudioProcess 0 ''c1'', AudioProcess 0 ''c2'', Encoded 1, Encoded 0] connected) =
     [(0, Media ''audio/pcm;rate=16000'' ''c2''), (0, Media ''audio/pcm;rate=16000'' ''c1'')]"
  by (simp add: connected_eq handlers)

lemma filter_absent:
  "i \<notin> fst ` set xs \<Longrightarrow> filter (\<lambda>(j, e). j \<noteq> i) xs = xs"
  by (induction xs) auto

lemma remove_other_stream:
  "distinct (map fst xs) \<Longrightarrow> map_of xs i = Some e \<Longrightarrow> \<not> P e \<Longrightarrow>
    filter P (map snd (filter (\<lambda>(j, e). j \<noteq> i) xs)) = filter P (map snd xs)"
proof (induction xs)
  case Nil
  then show ?case by simp
next
  case (Cons x xs)
  obtain j e' where x: "x = (j, e')" by (cases x)
  show ?case
  proof (cases "j = i")
    case True
    with Cons.prems x have "e' = e" "i \<notin> fst ` set xs" by auto
    with Cons.prems(3) True x show ?thesis by (simp add: filter_absent)
  next
    case False
    with Cons x show ?thesis by simp
  qed
qed

lemma remove_oldest:
  "distinct (map fst xs) \<Longrightarrow> map_of xs i = Some e \<Longrightarrow> P e \<Longrightarrow>
    (case filter (\<lambda>(j, e'). P e') xs of [] \<Rightarrow> False | (j, e') # rest \<Rightarrow> j = i) \<Longrightarrow>
    filter P (map snd xs) = e # filter P (map snd (filter (\<lambda>(j, e). j \<noteq> i) xs))"
proof (induction xs)
  case Nil
  then show ?case by simp
next
  case (Cons x xs)
  obtain j e' where x: "x = (j, e')" by (cases x)
  show ?case
  proof (cases "P e'")
    case True
    with Cons.prems(4) x have ji: "j = i" by simp
    with Cons.prems x have "e' = e" "i \<notin> fst ` set xs" by auto
    with True ji x show ?thesis by (simp add: filter_absent)
  next
    case False
    with Cons.prems(2,3) x have ji: "j \<noteq> i" by auto
    with Cons x False show ?thesis by simp
  qed
qed

lemma distinct_filter_fst:
  "distinct (map fst xs) \<Longrightarrow> distinct (map fst (filter Q xs))"
  by (induction xs) auto

lemma pipelineInv_blobToBase64:
  assumes "pipelineInv mime st"
  shows "pipelineInv mime (blobToBase64 p x st)"
proof -
  have "nextEncoding st \<notin> set (map fst (encoding st))"
    using assms by (auto simp add: pipelineInv_def list_all_iff)
  then show ?thesis
    using assms by (auto simp add: pipelineInv_def blobToBase64_def list_all_iff)
qed

lemma pipelineInv_encoded:
  assumes "pipelineInv mime st" and "oldestFirst mime i st"
  shows "pipelineInv mime (encoded i st)"
proof (cases "map_of (encoding st) i")
  case None
  then show ?thesis using assms(1) by (simp add: encoded_def)
next
  case (Some e)
  obtain p x where e: "e = (p, x)" by (cases e)
  have d: "distinct (map fst (encoding st))"
    and b: "list_all (\<lambda>j. j < nextEncoding st) (map fst (encoding st))"
    and f: "filter (ofStream mime) (outbound st) @ filter (ofStream mime) (map snd (encoding st)) =
       filter (ofStream mime) (captured st)"
    using assms(1) by (simp_all add: pipelineInv_def)
  have d': "distinct (map fst (filter (\<lambda>(j, e). j \<noteq> i) (encoding st)))"
    using d by (rule distinct_filter_fst)
  have b': "list_all (\<lambda>j. j < nextEncoding st)
      (map fst (filter (\<lambda>(j, e). j \<noteq> i) (encoding st)))"
    using b by (auto simp add: list_all_iff)
  have f': "filter (ofStream mime) (outbound st @ [e]) @
      filter (ofStream mime) (map snd (filter (\<lambda>(j, e). j \<noteq> i) (encoding st))) =
      filter (ofStream mime) (captured st)"
  proof (cases "ofStream mime e")
    case True
    with assms(2) Some have
      "case filter (\<lambda>(j, e'). ofStream mime e') (encoding st) of
         [] \<Rightarrow> False | (j, e') # rest \<Rightarrow> j = i"
      by (simp add: oldestFirst_def)
    from remove_oldest[of "encoding st" i e "ofStream mime", OF d Some True this] f True
    show ?thesis by simp
  next
    case False
    from remove_other_stream[of "encoding st" i e "ofStream mime", OF d Some False] f False
    show ?thesis by simp
  qed
  show ?thesis
    using d' b' f' Some e by (simp add: pipelineInv_def encoded_def)
qed

lemma pipelineInv_frame:
  "encoding st' = encoding st \<Longrightarrow> nextEncoding st' = nextEncoding st \<Longrightarrow>
   outbound st' = outbound st \<Longrightarrow> captured st' = captured st \<Longrightarrow>
   pipelineInv mime st \<Longrightarrow> pipelineInv mime st'"
  by (simp add: pipelineInv_def)

lemma pipelineInv_stopEverything:
  "pipelineInv mime st \<Longrightarrow> pipelineInv mime (stopEverything stream st)"
  by (rule pipelineInv_frame[of _ st])
    (simp_all add: stopEverything_def clearInterval_def Let_def split: option.splits)

lemma pipelineInv_onmessage:
  "pipelineInv mime st \<Longrightarrow> pipelineInv mime (onmessage dec c msg st)"
  by (rule pipelineInv_frame[of _ st])
    (simp_all add: onmessage_def audioOutput_def scheduler_def interruption_def Let_def
      split: option.splits)

lemma pipelineInv_connectResumed:
  "pipelineInv mime st \<Longrightarrow> pipelineInv mime (connectResumed r a st)"
  by (rule pipelineInv_frame[of _ st])
    (simp_all add: connectResumed_def connectFailed_def stopEverything_def
      startVideoStreaming_def clearInterval_def Let_def split: option.splits Acquisition.splits)

lemma pipelineInv_handleToggle:
  "pipelineInv mime st \<Longrightarrow> pipelineInv mime (handleToggle st)"
  by (rule pipelineInv_frame[of _ st])
    (simp_all add: handleToggle_def disconnect_def connectToGemini_def ensureAudioContext_def
      stopEverything_def clearInterval_def Let_def split: option.splits)

lemma pipelineInv_probe:
  assumes "pipelineInv mime st"
  shows "pipelineInv mime (case clickTestConnection st of None \<Rightarrow> st | Some st' \<Rightarrow> st')"
  using assms
  by (simp add: clickTestConnection_def handleTestConnection_def pipelineInv_def ofStream_def
      split: option.splits)

lemma pipelineInv_step:
  assumes "pipelineInv mime st"
    and "case ev of Encoded i \<Rightarrow> oldestFirst mime i st | _ \<Rightarrow> True"
  shows "pipelineInv mime (step dec ev st)"
proof (cases ev)
  case ClickToggle
  then show ?thesis using assms(1) by (simp add: pipelineInv_handleToggle)
next
  case ClickMic
  then show ?thesis using assms(1) by (simp add: toggleMic_def pipelineInv_def)
next
  case ClickTest
  then show ?thesis using pipelineInv_probe[OF assms(1)] by simp
next
  case (Resumed r a)
  then show ?thesis using assms(1) by (simp add: pipelineInv_connectResumed)
next
  case OnOpen
  then show ?thesis using assms(1) by (simp add: onopen_def pipelineInv_def)
next
  case (OnMessage c msg)
  then show ?thesis using assms(1) by (simp add: pipelineInv_onmessage)
next
  case OnClose
  then show ?thesis using assms(1) by (simp add: onclose_def pipelineInv_def)
next
  case (OnError r)
  have "pipelineInv mime
      (st \<lparr> error := Some ''Connection error. Please try again.'', status := ERROR \<rparr>)"
    using assms(1) by (simp add: pipelineInv_def)
  then show ?thesis by (simp add: OnError onerror_def pipelineInv_stopEverything)
next
  case (AudioProcess k inputData)
  then show ?thesis using assms(1)
    by (simp add: onaudioprocess_def pipelineInv_blobToBase64)
next
  case (VideoTick h frame)
  then show ?thesis using assms(1)
    by (simp add: videoTick_def pipelineInv_blobToBase64 split: option.splits)
next
  case (Encoded i)
  then show ?thesis using assms by (simp add: pipelineInv_encoded)
next
  case (Ended n)
  then show ?thesis using assms(1) by (simp add: onended_def pipelineInv_def)
next
  case (Unmount r)
  then show ?thesis using assms(1) by (simp add: pipelineInv_stopEverything)
qed

lemma pipelineInv_run:
  "pipelineInv mime st \<Longrightarrow> inOrder mime dec evs st \<Longrightarrow> pipelineInv mime (run dec evs st)"
  by (induction evs arbitrary: st) (simp_all add: pipelineInv_step)

lemma pipelineInv_initial: "pipelineInv mime initial"
  by (simp add: pipelineInv_def initial_def)

text \<open>
  Claim C5, amended. The code has no send queue: a chunk is handed to the session when
  its encoding completes. In a run in which every completion of a stream's encoding is
  that of the oldest encoding of the stream in flight, the chunks of the stream handed to
  the session, followed by those still being encoded, are the chunks captured, in the
  order of capture: delivery is in production order.
\<close>

theorem delivery_in_completion_order:
  assumes "inOrder mime dec evs initial"
  shows "filter (ofStream mime) (outbound (run dec evs initial)) @
           filter (ofStream mime) (map snd (encoding (run dec evs initial))) =
         filter (ofStream mime) (captured (run dec evs initial))"
  using pipelineInv_run[OF pipelineInv_initial assms] by (simp add: pipelineInv_def)

theorem delivery_in_completion_order_witness:
  "outbound (run (\<lambda>b. None)
      [ClickToggle, Resumed (render initial) (Established [7]), OnOpen,
       AudioProcess 0 ''c1'', VideoTick 1 (Some ''f1''), AudioProcess 0 ''c2'',
       Encoded 0, Encoded 2, Encoded 1] initial) =
     [(0, Media ''audio/pcm;rate=16000'' ''c1''), (0, Media ''audio/pcm;rate=16000'' ''c2''),
      (0, Media ''image/jpeg'' ''f1'')]
   \<and> filter (ofStream ''audio/pcm;rate=16000'') (captured (run (\<lambda>b. None)
      [ClickToggle, Resumed (render initial) (Established [7]), OnOpen,
       AudioProcess 0 ''c1'', VideoTick 1 (Some ''f1''), AudioProcess 0 ''c2'',
       Encoded 0, Encoded 2, Encoded 1] initial)) =
     [(0, Media ''audio/pcm;rate=16000'' ''c1''), (0, Media ''audio/pcm;rate=16000'' ''c2'')]"
proof -
  have ord: "inOrder ''audio/pcm;rate=16000'' (\<lambda>b. None)
      [ClickToggle, Resumed (render initial) (Established [7]), OnOpen,
       AudioProcess 0 ''c1'', VideoTick 1 (Some ''f1''), AudioProcess 0 ''c2'',
       Encoded 0, Encoded 2, Encoded 1] initial"
    by (simp add: handlers videoTick_def oldestFirst_def ofStream_def)
  have out: "outbound (run (\<lambda>b. None)
      [ClickToggle, Resumed (render initial) (Established [7]), OnOpen,
       AudioProcess 0 ''c1'', VideoTick 1 (Some ''f1''), AudioProcess 0 ''c2'',
       Encoded 0, Encoded 2, Encoded 1] initial) =
     [(0, Media ''audio/pcm;rate=16000'' ''c1''), (0, Media ''audio/pcm;rate=16000'' ''c2''),
      (0, Media ''image/jpeg'' ''f1'')]"
    and enc: "encoding (run (\<lambda>b. None)
      [ClickToggle, Resumed (render initial) (Established [7]), OnOpen,
       AudioProcess 0 ''c1'', VideoTick 1 (Some ''f1''), AudioProcess 0 ''c2'',
       Encoded 0, Encoded 2, Encoded 1] initial) = []"
    by (simp_all add: handlers videoTick_def)
  from delivery_in_completion_order[OF ord] show ?thesis
    unfolding out enc by (simp add: ofStream_def)
qed

section \<open>The connection lifecycle\<close>



text \<open>
  Claim C9, as stated, fails. The user clicks the toggle while the connection is being
  made; \<^verbatim>\<open>disconnect\<close> clears the session ref but the session is not closed, and it opens:
  the status is CONNECTED, the probe button is rendered, and a click on it sends nothing.
\<close>

theorem probe_without_session:
  "status (run (\<lambda>b. None)
      [ClickToggle, Resumed (render initial) (Established [7]), ClickToggle, OnOpen] initial)
     = CONNECTED
   \<and> clickTestConnection (run (\<lambda>b. None)
      [ClickToggle, Resumed (render initial) (Established [7]), ClickToggle, OnOpen] initial)
     = Some (run (\<lambda>b. None)
      [ClickToggle, Resumed (render initial) (Established [7]), ClickToggle, OnOpen] initial)
   \<and> outbound (handleTestConnection (run (\<lambda>b. None)
      [ClickToggle, Resumed (render initial) (Established [7]), ClickToggle, OnOpen] initial))
     = []"
  by (simp add: handlers)

text \<open>
  Claim C9, amended. The probe can be clicked only in the status CONNECTED. It leaves the
  status, and every field but the outbound log, as they were. When the session ref is set
  it sends the synthetic text to that session; when the ref is null it sends nothing.
\<close>

theorem probe_frame:
  assumes "clickTestConnection st = Some st'"
  shows "status st = CONNECTED
       \<and> status st' = status st
       \<and> st' \<lparr> outbound := outbound st \<rparr> = st
       \<and> outbound st' =
           (case sessionPromiseRef st of
              None \<Rightarrow> outbound st
            | Some sessionPromise \<Rightarrow>
                outbound st @
                  [(sessionPromise, Content User ''Hello! Confirm you can hear and see me.'')])"
  using assms
  by (auto simp add: clickTestConnection_def handleTestConnection_def
      split: if_splits option.splits)

theorem probe_frame_witness:
  "clickTestConnection connected =
     Some (connected \<lparr> outbound :=
       [(0, Content User ''Hello! Confirm you can hear and see me.'')] \<rparr>)
   \<and> status (connected \<lparr> outbound :=
       [(0, Content User ''Hello! Confirm you can hear and see me.'')] \<rparr>) = CONNECTED"
proof -
  have click: "clickTestConnection connected =
     Some (connected \<lparr> outbound :=
       [(0, Content User ''Hello! Confirm you can hear and see me.'')] \<rparr>)"
    by (simp add: connected_eq clickTestConnection_def handleTestConnection_def)
  from probe_frame[OF click] click show ?thesis by simp
qed

lemma filter_only_handle:
  "map fst xs = [h] \<Longrightarrow> filter (\<lambda>(t, p). t \<noteq> h) xs = []"
  by (cases xs) auto

lemma timerInv_startVideoStreaming:
  "timerInv st \<Longrightarrow> timerInv (startVideoStreaming p st)"
  by (auto simp add: timerInv_def startVideoStreaming_def clearInterval_def Let_def
      filter_only_handle split: option.splits)

lemma timerInv_stopEverything:
  "timerInv st \<Longrightarrow> timerInv (stopEverything stream st)"
  by (auto simp add: timerInv_def stopEverything_def clearInterval_def Let_def
      filter_only_handle split: option.splits)

lemma timerInv_frame:
  "timers st' = timers st \<Longrightarrow> nextTimer st' = nextTimer st \<Longrightarrow>
   frameIntervalRef st' = frameIntervalRef st \<Longrightarrow> timerInv st \<Longrightarrow> timerInv st'"
  by (simp add: timerInv_def)

lemma timerInv_onmessage:
  "timerInv st \<Longrightarrow> timerInv (onmessage dec c msg st)"
  by (rule timerInv_frame[of _ st])
    (simp_all add: onmessage_def audioOutput_def scheduler_def interruption_def Let_def
      split: option.splits)

lemma timerInv_connectResumed:
  assumes "timerInv st"
  shows "timerInv (connectResumed r a st)"
proof (cases a)
  case (Rejected message)
  have "timerInv (st \<lparr> error := Some (if message \<noteq> [] then message else ''Failed to connect''),
            status := ERROR \<rparr>)"
    using assms by (simp add: timerInv_def)
  then show ?thesis
    by (simp add: Rejected connectResumed_def connectFailed_def timerInv_stopEverything)
next
  case (Threw stream message)
  have "timerInv (st \<lparr> mediaStream := Some stream,
      error := Some (if message \<noteq> [] then message else ''Failed to connect''),
      status := ERROR \<rparr>)"
    using assms by (simp add: timerInv_def)
  then show ?thesis
    by (simp add: Threw connectResumed_def connectFailed_def timerInv_stopEverything)
next
  case (Established stream)
  have "timerInv (st \<lparr> mediaStream := Some stream,
                        nextSession := Suc (nextSession st),
                        sessionPromiseRef := Some (nextSession st),
                        processors := processors st @
                          [\<lparr> procMicOn = renderMicOn r, procSession = nextSession st \<rparr>] \<rparr>)"
    using assms by (simp add: timerInv_def)
  then show ?thesis
    by (simp add: Established connectResumed_def Let_def timerInv_startVideoStreaming)
qed

lemma timerInv_step:
  assumes "timerInv st"
  shows "timerInv (step dec ev st)"
proof (cases ev)
  case ClickToggle
  have "timerInv (st \<lparr> status := CONNECTING, error := None \<rparr>)"
    using assms by (simp add: timerInv_def)
  then have "timerInv (connectToGemini st)"
    by (simp add: connectToGemini_def ensureAudioContext_def timerInv_def split: option.splits)
  moreover have "timerInv (disconnect st)"
    using timerInv_stopEverything[OF assms, of "mediaStream st"]
    by (simp add: disconnect_def timerInv_def)
  ultimately show ?thesis by (simp add: ClickToggle handleToggle_def)
next
  case ClickMic
  then show ?thesis using assms by (simp add: toggleMic_def timerInv_def)
next
  case ClickTest
  then show ?thesis using assms
    by (simp add: clickTestConnection_def handleTestConnection_def timerInv_def
        split: option.splits)
next
  case (Resumed r a)
  then show ?thesis using assms by (simp add: timerInv_connectResumed)
next
  case OnOpen
  then show ?thesis using assms by (simp add: onopen_def timerInv_def)
next
  case (OnMessage c msg)
  then show ?thesis using assms by (simp add: timerInv_onmessage)
next
  case OnClose
  then show ?thesis using assms by (simp add: onclose_def timerInv_def)
next
  case (OnError r)
  have "timerInv (st \<lparr> error := Some ''Connection error. Please try again.'', status := ERROR \<rparr>)"
    using assms by (simp add: timerInv_def)
  then show ?thesis by (simp add: OnError onerror_def timerInv_stopEverything)
next
  case (AudioProcess k inputData)
  then show ?thesis using assms
    by (simp add: onaudioprocess_def blobToBase64_def timerInv_def)
next
  case (VideoTick h frame)
  then show ?thesis using assms
    by (simp add: videoTick_def blobToBase64_def timerInv_def split: option.splits)
next
  case (Encoded i)
  then show ?thesis using assms
    by (simp add: encoded_def timerInv_def split: option.splits prod.splits)
next
  case (Ended n)
  then show ?thesis using assms by (simp add: onended_def timerInv_def)
next
  case (Unmount r)
  then show ?thesis using assms by (simp add: timerInv_stopEverything)
qed

lemma timerInv_run: "timerInv st \<Longrightarrow> timerInv (run dec evs st)"
  by (induction evs arbitrary: st) (simp_all add: timerInv_step)

lemma timerInv_initial: "timerInv initial"
  by (simp add: timerInv_def initial_def)

text \<open>
  Claim C10. After every sequence of events from the first render, at most one interval
  is live, and it is the one whose handle \<^verbatim>\<open>frameIntervalRef\<close> holds.
\<close>

theorem at_most_one_video_timer:
  "length (timers (run dec evs initial)) \<le> 1
   \<and> map fst (timers (run dec evs initial)) =
       (case frameIntervalRef (run dec evs initial) of None \<Rightarrow> [] | Some h \<Rightarrow> [h])"
proof -
  have inv: "timerInv (run dec evs initial)"
    using timerInv_initial by (rule timerInv_run)
  then have m: "map fst (timers (run dec evs initial)) =
       (case frameIntervalRef (run dec evs initial) of None \<Rightarrow> [] | Some h \<Rightarrow> [h])"
    by (simp add: timerInv_def)
  have "length (timers (run dec evs initial)) = length (map fst (timers (run dec evs initial)))"
    by simp
  also have "\<dots> \<le> 1" unfolding m by (simp split: option.splits)
  finally show ?thesis using m by simp
qed

end
